theory Spec2Isabelle
  imports Main "HOL-Library.Monad_Syntax"
begin

section \<open>JavaScript string primitives\<close>

text \<open>
  A JavaScript string is a sequence of UTF-16 code units.  The development models the
  strings whose code units are below 256 as \<^typ>\<open>string\<close>, one \<^typ>\<open>char\<close> per code unit.
  On that range the white space of \<open>String.prototype.trim\<close> and of the regular
  expression class \<open>\s\<close> is TAB, LF, VT, FF, CR, SPACE and NBSP, and the line
  terminators (what \<open>.\<close> refuses and what \<open>^\<close> follows under the flag \<open>m\<close>) are LF and CR.
\<close>

definition is_js_space :: "char \<Rightarrow> bool" where
  "is_js_space c \<longleftrightarrow>
     c \<in> set [CHR 0x09, CHR 0x0A, CHR 0x0B, CHR 0x0C, CHR 0x0D, CHR 0x20, CHR 0xA0]"

definition is_line_terminator :: "char \<Rightarrow> bool" where
  "is_line_terminator c \<longleftrightarrow> c = CHR 0x0A \<or> c = CHR 0x0D"

definition js_trim :: "string \<Rightarrow> string" where
  "js_trim s = rev (dropWhile is_js_space (rev (dropWhile is_js_space s)))"

text \<open>\<open>s.split('\n')\<close>: never empty; the second branch of the inner case is unreachable.\<close>

fun split_nl :: "string \<Rightarrow> string list" where
  "split_nl [] = [[]]"
| "split_nl (c # cs) =
     (if c = CHR 0x0A then [] # split_nl cs
      else (case split_nl cs of l # ls \<Rightarrow> (c # l) # ls | [] \<Rightarrow> [[c]]))"

text \<open>\<open>xs.join(sep)\<close>.\<close>

fun js_join :: "string \<Rightarrow> string list \<Rightarrow> string" where
  "js_join sep [] = []"
| "js_join sep [x] = x"
| "js_join sep (x # y # ys) = x @ sep @ js_join sep (y # ys)"

text \<open>
  \<open>xs[i]\<close>: \<open>undefined\<close> out of range, which is \<open>None\<close> here.  Calling a method on it
  throws a \<open>TypeError\<close>.
\<close>

fun js_index :: "'a list \<Rightarrow> nat \<Rightarrow> 'a option" where
  "js_index [] i = None"
| "js_index (x # xs) 0 = Some x"
| "js_index (x # xs) (Suc i) = js_index xs i"

text \<open>\<open>s.substring(a, b)\<close> for \<open>a \<le> b\<close> (both are clamped to the length), and \<open>s.substring(a)\<close>.\<close>

definition substring :: "string \<Rightarrow> nat \<Rightarrow> nat \<Rightarrow> string" where
  "substring s a b = (if a \<le> b then take (b - a) (drop a s) else take (a - b) (drop b s))"

definition substring_from :: "string \<Rightarrow> nat \<Rightarrow> string" where
  "substring_from s a = drop a s"

subsection \<open>The fence delimiter\<close>

definition fence :: string where
  "fence = ''```''"

text \<open>
  \<open>s.indexOf('```')\<close>: the offset of the first occurrence, \<open>None\<close> for \<open>-1\<close>;
  \<open>text.indexOf('```', from)\<close> searches from an offset.
\<close>

fun find_fence :: "string \<Rightarrow> nat option" where
  "find_fence (a # b # c # cs) =
     (if a = CHR ''`'' \<and> b = CHR ''`'' \<and> c = CHR ''`'' then Some 0
      else map_option Suc (find_fence (b # c # cs)))"
| "find_fence cs = None"

definition index_of_fence :: "string \<Rightarrow> nat \<Rightarrow> nat option" where
  "index_of_fence text from = map_option (\<lambda>k. k + from) (find_fence (drop from text))"

lemma find_fence_bound: "find_fence s = Some k \<Longrightarrow> k + 3 \<le> length s"
proof (induction s arbitrary: k rule: find_fence.induct)
  case (1 a b c cs)
  then show ?case by (auto split: if_splits)
qed simp_all

text \<open>\<open>text.split('```')\<close>: the spans between successive occurrences, found left to right.\<close>

function split_fence :: "string \<Rightarrow> string list" where
  "split_fence s =
     (case find_fence s of
        None \<Rightarrow> [s]
      | Some k \<Rightarrow> take k s # split_fence (drop (k + 3) s))"
  by pat_completeness auto
termination
  by (relation "measure length") (auto dest: find_fence_bound)

declare split_fence.simps [simp del]

section \<open>Regular-expression building blocks\<close>

text \<open>
  The regular expressions of the source are written out as matchers.  A matcher for the
  part of an expression after \<open>^\<close> takes the text from a candidate position on.
  Under the flag \<open>m\<close> the candidates of \<open>^\<close> are the start of the text and every
  position after a line terminator; an expression without \<open>^\<close> is tried at every
  position.
\<close>

fun after_terminator :: "(string \<Rightarrow> bool) \<Rightarrow> string \<Rightarrow> bool" where
  "after_terminator P [] = False"
| "after_terminator P (c # cs) = ((is_line_terminator c \<and> P cs) \<or> after_terminator P cs)"

definition at_line_start :: "(string \<Rightarrow> bool) \<Rightarrow> string \<Rightarrow> bool" where
  "at_line_start P s \<longleftrightarrow> P s \<or> after_terminator P s"


text \<open>
  Under the flag \<open>i\<close> (without \<open>u\<close>) a code unit matches an ASCII letter of the pattern
  only when it is that letter in one of its two cases.
\<close>

definition ascii_upper :: "char \<Rightarrow> char" where
  "ascii_upper c =
     (case map_of (zip ''abcdefghijklmnopqrstuvwxyz'' ''ABCDEFGHIJKLMNOPQRSTUVWXYZ'') c of
        Some u \<Rightarrow> u | None \<Rightarrow> c)"

fun ci_prefix :: "string \<Rightarrow> string \<Rightarrow> bool" where
  "ci_prefix [] s = True"
| "ci_prefix (p # ps) [] = False"
| "ci_prefix (p # ps) (c # cs) = (ascii_upper c = ascii_upper p \<and> ci_prefix ps cs)"

text \<open>The text left after the literal \<open>lit\<close> (ignoring case), when the text starts with it.\<close>

definition after_ci :: "string \<Rightarrow> string \<Rightarrow> string option" where
  "after_ci lit s = (if ci_prefix lit s then Some (drop (length lit) s) else None)"

text \<open>\<open>\s+\<close> followed by \<open>P\<close>, for a \<open>P\<close> that cannot start with white space.\<close>

definition spaces_then :: "(string \<Rightarrow> bool) \<Rightarrow> string \<Rightarrow> bool" where
  "spaces_then P s \<longleftrightarrow> s \<noteq> [] \<and> is_js_space (hd s) \<and> P (dropWhile is_js_space s)"

section \<open>The diagram-kind classifier\<close>

text \<open>\<open>/^graph\s+(?:TD|LR|RL|BT)/im\<close>, \<open>/^graph\s+/im\<close> and \<open>/^lit/im\<close>.\<close>

definition re_graph_dir :: "string \<Rightarrow> bool" where
  "re_graph_dir = at_line_start (\<lambda>s.
     case after_ci ''graph'' s of
       None \<Rightarrow> False
     | Some r \<Rightarrow> spaces_then (\<lambda>t. ci_prefix ''TD'' t \<or> ci_prefix ''LR'' t
                                  \<or> ci_prefix ''RL'' t \<or> ci_prefix ''BT'' t) r)"

definition re_graph :: "string \<Rightarrow> bool" where
  "re_graph = at_line_start (\<lambda>s.
     case after_ci ''graph'' s of None \<Rightarrow> False | Some r \<Rightarrow> spaces_then (\<lambda>t. True) r)"

definition re_word :: "string \<Rightarrow> string \<Rightarrow> bool" where
  "re_word lit = at_line_start (ci_prefix lit)"

definition typePatterns :: "((string \<Rightarrow> bool) \<times> string) list" where
  "typePatterns =
     [(re_graph_dir, ''flowchart''),
      (re_graph, ''flowchart''),
      (re_word ''flowchart'', ''flowchart''),
      (re_word ''sequenceDiagram'', ''sequence''),
      (re_word ''classDiagram'', ''class''),
      (re_word ''stateDiagram'', ''state''),
      (re_word ''gantt'', ''gantt''),
      (re_word ''pie'', ''pie''),
      (re_word ''mindmap'', ''mindmap''),
      (re_word ''erDiagram'', ''er''),
      (re_word ''gitGraph'', ''git''),
      (re_word ''timeline'', ''timeline''),
      (re_word ''journey'', ''journey''),
      (re_word ''quadrantChart'', ''quadrant''),
      (re_word ''C4Context'', ''c4''),
      (re_word ''requirementDiagram'', ''requirement'')]"

text \<open>The loop \<open>for (const {regex, type} of typePatterns)\<close> with its early return.\<close>

fun detect_loop :: "((string \<Rightarrow> bool) \<times> string) list \<Rightarrow> string \<Rightarrow> string" where
  "detect_loop [] content = ''flowchart''"
| "detect_loop ((regex, type) # rest) content =
     (if regex content then type else detect_loop rest content)"

definition detectDiagramType :: "string \<Rightarrow> string" where
  "detectDiagramType content = detect_loop typePatterns content"

text \<open>The fourteen members of the type \<open>MermaidDiagramType\<close>.\<close>

definition MermaidDiagramType :: "string list" where
  "MermaidDiagramType =
     [''flowchart'', ''sequence'', ''class'', ''state'', ''gantt'', ''pie'', ''mindmap'',
      ''er'', ''git'', ''timeline'', ''journey'', ''quadrant'', ''c4'', ''requirement'']"

section \<open>The diagram-block scanner\<close>

record MermaidBlock =
  content :: string
  startIndex :: "nat option"
  endIndex :: nat
  diagramType :: string

text \<open>
  The first loop of \<open>extractMermaidBlocks\<close>: \<open>n\<close> iterations are left and \<open>searchPos\<close>
  is where the next search starts.  The list built is \<open>positions\<close>.
\<close>

fun positions_loop :: "string \<Rightarrow> nat \<Rightarrow> nat \<Rightarrow> nat list" where
  "positions_loop text 0 searchPos = []"
| "positions_loop text (Suc n) searchPos =
     (case index_of_fence text searchPos of
        None \<Rightarrow> positions_loop text n searchPos
      | Some pos \<Rightarrow> pos # positions_loop text n (pos + 3))"

text \<open>\<open>content.trim().split('\n')[0].trim()\<close> for \<open>content = part\<close>; \<open>None\<close> is the \<open>TypeError\<close> of \<open>undefined.trim()\<close>.\<close>

definition first_line :: "string \<Rightarrow> string option" where
  "first_line part = map_option js_trim (js_index (split_nl (js_trim part)) 0)"

text \<open>\<open>content.split('\n').slice(1).join('\n').trim()\<close>.\<close>

definition mermaid_content :: "string \<Rightarrow> string" where
  "mermaid_content part = js_trim (js_join [CHR 0x0A] (drop 1 (split_nl part)))"

text \<open>
  One iteration of the second loop, at index \<open>i\<close>: the blocks it pushes (none or one), or
  \<open>None\<close> when it throws.  \<open>startIndex\<close> is \<open>positions[i]\<close>, which JavaScript leaves
  \<open>undefined\<close> out of range.
\<close>

definition scan_part :: "string \<Rightarrow> string list \<Rightarrow> nat list \<Rightarrow> nat \<Rightarrow> MermaidBlock list option" where
  "scan_part text parts positions i =
     (case js_index parts (i + 1) of
        None \<Rightarrow> None
      | Some part \<Rightarrow>
         (case first_line part of
            None \<Rightarrow> None
          | Some firstLine \<Rightarrow>
             if firstLine = ''mermaid'' then
               let mermaidContent = mermaid_content part
               in Some [\<lparr>content = mermaidContent,
                         startIndex = js_index positions i,
                         endIndex = (case js_index positions (i + 1) of
                                       Some p \<Rightarrow> p + 3
                                     | None \<Rightarrow> length text),
                         diagramType = detectDiagramType mermaidContent\<rparr>]
             else Some []))"

definition extractMermaidBlocks :: "string \<Rightarrow> MermaidBlock list option" where
  "extractMermaidBlocks text =
     (let parts = split_fence text;
          positions = positions_loop text (length parts - 1) 0
      in map_option concat
           (those (map (scan_part text parts positions) [0..<length parts - 1])))"

section \<open>Line and text tests of the paste path\<close>

definition starts_with :: "string \<Rightarrow> string \<Rightarrow> bool" where
  "starts_with lit s \<longleftrightarrow> take (length lit) s = lit"

definition is_digit :: "char \<Rightarrow> bool" where
  "is_digit c \<longleftrightarrow> c \<in> set ''0123456789''"

text \<open>\<open>#{1,6}\s\<close> at the start of \<open>s\<close>.\<close>

definition re_heading :: "string \<Rightarrow> bool" where
  "re_heading s =
     (let k = length (takeWhile (\<lambda>c. c = CHR ''#'') s)
      in 1 \<le> k \<and> k \<le> 6 \<and> (case drop k s of [] \<Rightarrow> False | c # _ \<Rightarrow> is_js_space c))"

text \<open>\<open>[-*+]\s\<close>, \<open>\d+\.\s\<close>, \<open>>\s\<close> and \<open>\|.*\|\<close> at the start of \<open>s\<close>.\<close>

definition re_bullet :: "string \<Rightarrow> bool" where
  "re_bullet s =
     (case s of
        c # d # _ \<Rightarrow> (c = CHR ''-'' \<or> c = CHR ''*'' \<or> c = CHR ''+'') \<and> is_js_space d
      | _ \<Rightarrow> False)"

definition re_ordered :: "string \<Rightarrow> bool" where
  "re_ordered s =
     (takeWhile is_digit s \<noteq> [] \<and>
      (case dropWhile is_digit s of
         c # d # _ \<Rightarrow> c = CHR ''.'' \<and> is_js_space d
       | _ \<Rightarrow> False))"

definition re_quote :: "string \<Rightarrow> bool" where
  "re_quote s = (case s of c # d # _ \<Rightarrow> c = CHR ''>'' \<and> is_js_space d | _ \<Rightarrow> False)"

definition re_table :: "string \<Rightarrow> bool" where
  "re_table s =
     (case s of
        [] \<Rightarrow> False
      | c # r \<Rightarrow> c = CHR ''|'' \<and> CHR ''|'' \<in> set (takeWhile (\<lambda>x. \<not> is_line_terminator x) r))"

text \<open>\<open>\s*\<close> in front of a matcher whose first character is not white space.\<close>

definition skip_spaces :: "(string \<Rightarrow> bool) \<Rightarrow> string \<Rightarrow> bool" where
  "skip_spaces P s = P (dropWhile is_js_space s)"

text \<open>
  The test of \<open>hasBlockSyntax\<close> on one line: \<open>/^#{1,6}\s/\<close>, \<open>/^\s*[-*+]\s/\<close>,
  \<open>/^\s*\d+\.\s/\<close>, \<open>/^\s*>\s/\<close>, \<open>/^\s*```/\<close>, \<open>/^\s*\|.*\|/\<close>.
\<close>

definition block_syntax_line :: "string \<Rightarrow> bool" where
  "block_syntax_line line \<longleftrightarrow>
     re_heading line \<or> skip_spaces re_bullet line \<or> skip_spaces re_ordered line \<or>
     skip_spaces re_quote line \<or> skip_spaces (starts_with fence) line \<or>
     skip_spaces re_table line"





section \<open>The Markdown-to-tree converter\<close>

text \<open>
  A node of the editor's document: a text node, or a node with a type name, attributes
  and content.
\<close>

datatype pm_node =
    PMText string
  | PMNode string "(string \<times> string) list" "pm_node list"

text \<open>
  The two external collaborators are parameters: \<open>marked\<close> turns Markdown into HTML,
  and \<open>parseSlice\<close> stands for \<open>div.innerHTML = html\<close> followed by
  \<open>domParser.parseSlice(div)\<close> and the walk over \<open>slice.content\<close>.  Either may throw,
  which is \<open>None\<close>.
\<close>

type_synonym marked_fn = "string \<Rightarrow> string option"
type_synonym parse_fn = "string \<Rightarrow> pm_node list option"

definition convertMarkdownToHTML :: "marked_fn \<Rightarrow> string \<Rightarrow> string option" where
  "convertMarkdownToHTML marked markdownText =
     (let lines = filter (\<lambda>line. js_trim line \<noteq> []) (split_nl markdownText);
          hasMultipleLines = (length lines > 1);
          hasBlockSyntax = list_ex block_syntax_line lines
      in if hasMultipleLines \<and> \<not> hasBlockSyntax
         then map_option concat (those (map marked lines))
         else marked markdownText)"

text \<open>The four statements that turn a span of Markdown into nodes, as they recur in the source.\<close>

definition std_nodes :: "marked_fn \<Rightarrow> parse_fn \<Rightarrow> string \<Rightarrow> pm_node list option" where
  "std_nodes marked parseSlice markdownText =
     (case convertMarkdownToHTML marked markdownText of
        None \<Rightarrow> None
      | Some html \<Rightarrow> parseSlice html)"

text \<open>
  \<open>schema.text(text)\<close>: the editor refuses an empty text node with a \<open>RangeError\<close>,
  which is \<open>None\<close>.
\<close>

definition schema_text :: "string \<Rightarrow> pm_node option" where
  "schema_text s = (if s = [] then None else Some (PMText s))"

text \<open>
  \<open>schema.nodes.mermaidBlock.create({...}, [schema.text(block.content)])\<close>: it throws
  when the content of the block is empty.
\<close>

definition mermaidNode :: "MermaidBlock \<Rightarrow> pm_node option" where
  "mermaidNode block =
     (case schema_text (content block) of
        None \<Rightarrow> None
      | Some textNode \<Rightarrow>
          Some (PMNode ''mermaidBlock''
                  [(''diagramType'', diagramType block), (''viewMode'', ''preview''),
                   (''theme'', ''default'')]
                  [textNode]))"

definition paraNode :: pm_node where
  "paraNode = PMNode ''paragraph'' [] []"

text \<open>
  The nodes of the text in front of a block: nothing when \<open>startIndex\<close> is undefined or
  not beyond \<open>lastIndex\<close> (the comparison is false), or when the text is blank.
\<close>

definition before_nodes :: "marked_fn \<Rightarrow> parse_fn \<Rightarrow> string \<Rightarrow> nat \<Rightarrow> MermaidBlock \<Rightarrow> pm_node list option" where
  "before_nodes marked parseSlice markdownText lastIndex block =
     (case startIndex block of
        None \<Rightarrow> Some []
      | Some start \<Rightarrow>
          if start > lastIndex then
            (let beforeText = substring markdownText lastIndex start
             in if js_trim beforeText \<noteq> [] then std_nodes marked parseSlice beforeText
                else Some [])
          else Some [])"

text \<open>
  The loop over \<open>mermaidBlocks\<close>: the blocks still to do, and the state
  \<open>(contentNodes, lastIndex)\<close>.  \<open>i < mermaidBlocks.length - 1\<close> is \<open>rest \<noteq> []\<close>.
\<close>

fun convert_loop ::
  "marked_fn \<Rightarrow> parse_fn \<Rightarrow> string \<Rightarrow> MermaidBlock list \<Rightarrow> pm_node list \<times> nat
     \<Rightarrow> (pm_node list \<times> nat) option" where
  "convert_loop marked parseSlice markdownText [] state = Some state"
| "convert_loop marked parseSlice markdownText (block # rest) (contentNodes, lastIndex) =
     (case before_nodes marked parseSlice markdownText lastIndex block of
        None \<Rightarrow> None
      | Some beforeNodes \<Rightarrow>
          (case mermaidNode block of
             None \<Rightarrow> None
           | Some diagramNode \<Rightarrow>
               convert_loop marked parseSlice markdownText rest
                 (contentNodes @ beforeNodes @ [diagramNode] @
                    (if rest \<noteq> [] \<or> endIndex block < length markdownText
                     then [paraNode] else []),
                  endIndex block)))"

definition after_nodes :: "marked_fn \<Rightarrow> parse_fn \<Rightarrow> string \<Rightarrow> nat \<Rightarrow> pm_node list option" where
  "after_nodes marked parseSlice markdownText lastIndex =
     (if lastIndex < length markdownText then
        (let afterText = substring_from markdownText lastIndex
         in if js_trim afterText \<noteq> [] then std_nodes marked parseSlice afterText else Some [])
      else Some [])"

definition convertMarkdownToTipTapNodes :: "marked_fn \<Rightarrow> parse_fn \<Rightarrow> string \<Rightarrow> pm_node list option" where
  "convertMarkdownToTipTapNodes marked parseSlice markdownText =
     (case extractMermaidBlocks markdownText of
        None \<Rightarrow> None
      | Some mermaidBlocks \<Rightarrow>
          if length mermaidBlocks = 0 then std_nodes marked parseSlice markdownText
          else
            (case convert_loop marked parseSlice markdownText mermaidBlocks ([], 0) of
               None \<Rightarrow> None
             | Some (contentNodes, lastIndex) \<Rightarrow>
                 map_option (\<lambda>afterNodes. contentNodes @ afterNodes)
                   (after_nodes marked parseSlice markdownText lastIndex)))"

section \<open>The paste adapter\<close>




section \<open>The DOM and the tree-to-Markdown serializers\<close>

text \<open>
  A DOM node: a text node, a node of another kind (a comment), or an element with its
  tag name in lower case (\<open>el.tagName.toLowerCase()\<close>), its attributes and its child
  nodes.
\<close>

datatype dom =
    DText string
  | DOther
  | DElem string "(string \<times> string) list" "dom list"

fun textContent :: "dom \<Rightarrow> string" where
  "textContent (DText s) = s"
| "textContent DOther = []"
| "textContent (DElem tag attrs children) = concat (map textContent children)"

fun childNodes :: "dom \<Rightarrow> dom list" where
  "childNodes (DElem tag attrs children) = children"
| "childNodes n = []"

fun has_tag :: "string list \<Rightarrow> dom \<Rightarrow> bool" where
  "has_tag tags (DElem tag attrs children) = (tag \<in> set tags)"
| "has_tag tags n = False"

text \<open>A node followed by its descendants, in document order.\<close>

fun subtree :: "dom \<Rightarrow> dom list" where
  "subtree (DElem tag attrs children) = DElem tag attrs children # concat (map subtree children)"
| "subtree n = [n]"

definition descendants :: "dom \<Rightarrow> dom list" where
  "descendants el = concat (map subtree (childNodes el))"

text \<open>\<open>el.querySelector(tag)\<close>, \<open>el.querySelectorAll('a, b')\<close> and \<open>el.querySelectorAll(':scope > tag')\<close>.\<close>

definition querySelector :: "string \<Rightarrow> dom \<Rightarrow> dom option" where
  "querySelector tag el = find (has_tag [tag]) (descendants el)"

definition querySelectorAll :: "string list \<Rightarrow> dom \<Rightarrow> dom list" where
  "querySelectorAll tags el = filter (has_tag tags) (descendants el)"

definition scope_children :: "string \<Rightarrow> dom \<Rightarrow> dom list" where
  "scope_children tag el = filter (has_tag [tag]) (childNodes el)"

fun getAttribute :: "string \<Rightarrow> dom \<Rightarrow> string option" where
  "getAttribute name (DElem tag attrs children) = map_of attrs name"
| "getAttribute name n = None"

definition className :: "dom \<Rightarrow> string" where
  "className el = (case getAttribute ''class'' el of None \<Rightarrow> [] | Some v \<Rightarrow> v)"

text \<open>\<open>cls.match(/language-(\w+)/)?.[1] || ''\<close>: the word after the first \<open>language-\<close> that has one.\<close>

definition is_word_char :: "char \<Rightarrow> bool" where
  "is_word_char c \<longleftrightarrow>
     c \<in> set ''abcdefghijklmnopqrstuvwxyzABCDEFGHIJKLMNOPQRSTUVWXYZ0123456789_''"

fun language_of :: "string \<Rightarrow> string" where
  "language_of [] = []"
| "language_of (c # cs) =
     (if starts_with ''language-'' (c # cs) \<and> takeWhile is_word_char (drop 9 (c # cs)) \<noteq> []
      then takeWhile is_word_char (drop 9 (c # cs))
      else language_of cs)"

text \<open>A number in decimal, as a template literal prints it.\<close>

fun decimal :: "nat \<Rightarrow> string" where
  "decimal n =
     (if n < 10 then [''0123456789'' ! n]
      else decimal (n div 10) @ [''0123456789'' ! (n mod 10)])"

declare decimal.simps [simp del]

text \<open>\<open>`${'#'.repeat(n)} ${el.textContent}\n\n`\<close> for the six heading tags.\<close>

definition heading_level :: "string \<Rightarrow> nat option" where
  "heading_level tag =
     map_of [(''h1'', 1), (''h2'', 2), (''h3'', 3), (''h4'', 4), (''h5'', 5), (''h6'', 6)] tag"

definition heading_md :: "nat \<Rightarrow> dom \<Rightarrow> string" where
  "heading_md n el = replicate n (CHR ''#'') @ '' '' @ textContent el @ ''\<newline>\<newline>''"

subsection \<open>The copy path: \<open>domToMarkdown\<close>\<close>

text \<open>The \<open>pre\<close> case.\<close>

definition dom_pre :: "dom \<Rightarrow> string" where
  "dom_pre el =
     (case querySelector ''code'' el of
        Some codeEl \<Rightarrow>
          fence @ language_of (className codeEl) @ ''\<newline>'' @ textContent codeEl
            @ ''\<newline>'' @ fence @ ''\<newline>\<newline>''
      | None \<Rightarrow> fence @ ''\<newline>'' @ textContent el @ ''\<newline>'' @ fence @ ''\<newline>\<newline>'')"

text \<open>The \<open>blockquote\<close> case, from the children's Markdown \<open>inner\<close>.\<close>

definition dom_blockquote :: "string \<Rightarrow> string" where
  "dom_blockquote inner =
     foldl (\<lambda>markdown line. markdown @ ''> '' @ line @ ''\<newline>'') [] (split_nl (js_trim inner))
       @ ''\<newline>''"

text \<open>The \<open>table\<close> case: the separator follows the first row.\<close>

definition row_cells :: "dom \<Rightarrow> string list" where
  "row_cells row = map (\<lambda>cell. js_trim (textContent cell)) (querySelectorAll [''td'', ''th''] row)"

definition dom_row :: "nat \<Rightarrow> dom \<Rightarrow> string" where
  "dom_row idx row =
     ''| '' @ js_join '' | '' (row_cells row) @ '' |\<newline>'' @
     (if idx = 0
      then ''| '' @ js_join '' | '' (map (\<lambda>_. ''---'') (row_cells row)) @ '' |\<newline>''
      else [])"

definition dom_table :: "dom \<Rightarrow> string" where
  "dom_table el =
     concat (map (\<lambda>(idx, row). dom_row idx row) (enumerate 0 (querySelectorAll [''tr''] el)))
       @ ''\<newline>''"

text \<open>
  \<open>dom_node parent node\<close> is what one turn of \<open>element.childNodes.forEach\<close> appends for
  the child \<open>node\<close> of an element with tag \<open>parent\<close>; \<open>dom_children parent nodes\<close> is
  \<open>domToMarkdown\<close> of such an element with the child nodes \<open>nodes\<close>; \<open>dom_items\<close> gives
  the trimmed Markdown of the \<open>li\<close> elements among child nodes.
\<close>

fun dom_node :: "string \<Rightarrow> dom \<Rightarrow> string"
  and dom_children :: "string \<Rightarrow> dom list \<Rightarrow> string"
  and dom_items :: "dom list \<Rightarrow> string list" where
  "dom_node parent (DText s) = s"
| "dom_node parent DOther = []"
| "dom_node parent (DElem tag attrs children) =
     (let el = DElem tag attrs children in
      case heading_level tag of Some n \<Rightarrow> heading_md n el | None \<Rightarrow>
      if tag = ''strong'' \<or> tag = ''b'' then ''**'' @ textContent el @ ''**''
      else if tag = ''em'' \<or> tag = ''i'' then ''*'' @ textContent el @ ''*''
      else if tag = ''code'' then
        (if parent = ''pre''
         then fence @ ''\<newline>'' @ textContent el @ ''\<newline>'' @ fence @ ''\<newline>\<newline>''
         else ''`'' @ textContent el @ ''`'')
      else if tag = ''pre'' then dom_pre el
      else if tag = ''blockquote'' then dom_blockquote (dom_children tag children)
      else if tag = ''ul'' then
        concat (map (\<lambda>liContent. ''- '' @ liContent @ ''\<newline>'') (dom_items children))
          @ ''\<newline>''
      else if tag = ''ol'' then
        concat (map (\<lambda>(idx, liContent). decimal (idx + 1) @ ''. '' @ liContent @ ''\<newline>'')
                  (enumerate 0 (dom_items children)))
          @ ''\<newline>''
      else if tag = ''li'' then js_trim (dom_children tag children)
      else if tag = ''a'' then
        ''['' @ textContent el @ '']('' @
          (case getAttribute ''href'' el of None \<Rightarrow> [] | Some href \<Rightarrow> href) @ '')''
      else if tag = ''p'' then
        (let pContent = js_trim (dom_children tag children)
         in if pContent \<noteq> [] then pContent @ ''\<newline>\<newline>'' else [])
      else if tag = ''hr'' then ''---\<newline>\<newline>''
      else if tag = ''br'' then ''\<newline>''
      else if tag = ''table'' then dom_table el
      else dom_children tag children)"
| "dom_children parent [] = []"
| "dom_children parent (node # nodes) = dom_node parent node @ dom_children parent nodes"
| "dom_items [] = []"
| "dom_items (DElem tag attrs children # nodes) =
     (if tag = ''li'' then js_trim (dom_children tag children) # dom_items nodes
      else dom_items nodes)"
| "dom_items (node # nodes) = dom_items nodes"

definition domToMarkdown :: "dom \<Rightarrow> string" where
  "domToMarkdown element =
     (case element of
        DElem tag attrs children \<Rightarrow> dom_children tag children
      | _ \<Rightarrow> [])"

subsection \<open>The save path: \<open>htmlToMarkdown\<close>\<close>

definition html_pre :: "dom \<Rightarrow> string" where
  "html_pre el =
     (case querySelector ''code'' el of
        Some codeEl \<Rightarrow>
          fence @ language_of (className codeEl) @ ''\<newline>'' @ textContent codeEl
            @ fence @ ''\<newline>\<newline>''
      | None \<Rightarrow> fence @ ''\<newline>'' @ textContent el @ fence @ ''\<newline>\<newline>'')"

definition html_blockquote :: "string \<Rightarrow> string" where
  "html_blockquote inner =
     js_join ''\<newline>'' (map (\<lambda>line. ''> '' @ line) (split_nl (js_trim inner)))
       @ ''\<newline>\<newline>''"

definition html_table :: "dom \<Rightarrow> string" where
  "html_table el =
     js_join ''\<newline>''
       (map (\<lambda>row. ''| '' @ js_join '' | '' (row_cells row) @ '' |'') (querySelectorAll [''tr''] el))
       @ ''\<newline>\<newline>''"

text \<open>
  \<open>processNode parent node\<close> for a child \<open>node\<close> of an element with tag \<open>parent\<close>;
  \<open>process_children parent nodes\<close> is \<open>Array.from(el.childNodes).map(processNode).join('')\<close>;
  \<open>process_items\<close> gives the trimmed Markdown of the \<open>li\<close> elements among child nodes.
\<close>

fun processNode :: "string \<Rightarrow> dom \<Rightarrow> string"
  and process_children :: "string \<Rightarrow> dom list \<Rightarrow> string"
  and process_items :: "dom list \<Rightarrow> string list" where
  "processNode parent (DText s) = s"
| "processNode parent DOther = []"
| "processNode parent (DElem tag attrs children) =
     (let el = DElem tag attrs children in
      case heading_level tag of Some n \<Rightarrow> heading_md n el | None \<Rightarrow>
      if tag = ''strong'' \<or> tag = ''b'' then ''**'' @ textContent el @ ''**''
      else if tag = ''em'' \<or> tag = ''i'' then ''*'' @ textContent el @ ''*''
      else if tag = ''code'' then
        (if parent = ''pre''
         then fence @ textContent el @ fence @ ''\<newline>\<newline>''
         else ''`'' @ textContent el @ ''`'')
      else if tag = ''pre'' then html_pre el
      else if tag = ''blockquote'' then html_blockquote (process_children tag children)
      else if tag = ''ul'' then
        js_join ''\<newline>'' (map (\<lambda>liContent. ''- '' @ liContent) (process_items children))
          @ ''\<newline>\<newline>''
      else if tag = ''ol'' then
        js_join ''\<newline>''
          (map (\<lambda>(idx, liContent). decimal (idx + 1) @ ''. '' @ liContent)
             (enumerate 0 (process_items children)))
          @ ''\<newline>\<newline>''
      else if tag = ''li'' then js_trim (process_children tag children)
      else if tag = ''a'' then
        ''['' @ textContent el @ '']('' @
          (case getAttribute ''href'' el of None \<Rightarrow> [] | Some href \<Rightarrow> href) @ '')''
      else if tag = ''p'' then js_trim (process_children tag children) @ ''\<newline>\<newline>''
      else if tag = ''hr'' then ''---\<newline>\<newline>''
      else if tag = ''br'' then ''\<newline>''
      else if tag = ''table'' then html_table el
      else process_children tag children)"
| "process_children parent [] = []"
| "process_children parent (node # nodes) = processNode parent node @ process_children parent nodes"
| "process_items [] = []"
| "process_items (DElem tag attrs children # nodes) =
     (if tag = ''li'' then js_trim (process_children tag children) # process_items nodes
      else process_items nodes)"
| "process_items (node # nodes) = process_items nodes"

text \<open>\<open>htmlToMarkdown\<close>, from the child nodes of the \<open>div\<close> that holds the parsed HTML.\<close>

definition htmlToMarkdown :: "dom list \<Rightarrow> string" where
  "htmlToMarkdown nodes = js_trim (process_children ''div'' nodes)"

subsection \<open>Rendering and copying diagram blocks\<close>

text \<open>
  \<open>MermaidBlock.renderHTML\<close>: the content hole \<open>0\<close> takes the node's children, which are
  text nodes.
\<close>

fun render_content :: "pm_node \<Rightarrow> dom" where
  "render_content (PMText s) = DText s"
| "render_content (PMNode type attrs children) = DOther"

definition node_attr :: "string \<Rightarrow> (string \<times> string) list \<Rightarrow> string" where
  "node_attr name attrs = (case map_of attrs name of None \<Rightarrow> [] | Some v \<Rightarrow> v)"

definition renderHTML :: "(string \<times> string) list \<Rightarrow> pm_node list \<Rightarrow> dom" where
  "renderHTML attrs children =
     DElem ''div''
       [(''data-type'', ''mermaid-block''),
        (''data-diagram-type'', node_attr ''diagramType'' attrs),
        (''data-view-mode'', node_attr ''viewMode'' attrs),
        (''data-theme'', node_attr ''theme'' attrs),
        (''class'', ''mermaid-block'')]
       [DElem ''pre'' [(''class'', ''mermaid-source'')]
          [DElem ''code'' [(''class'', ''language-mermaid'')] (map render_content children)]]"

text \<open>
  \<open>serializer.serializeFragment\<close>: a \<open>mermaidBlock\<close> node goes through \<open>renderHTML\<close>;
  what the other extensions render is the parameter \<open>render\<close>.
\<close>

fun is_mermaid_node :: "pm_node \<Rightarrow> bool" where
  "is_mermaid_node (PMNode type attrs children) = (type = ''mermaidBlock'')"
| "is_mermaid_node (PMText s) = False"

fun serialize_node :: "(pm_node \<Rightarrow> dom) \<Rightarrow> pm_node \<Rightarrow> dom" where
  "serialize_node render (PMNode type attrs children) =
     (if type = ''mermaidBlock'' then renderHTML attrs children
      else render (PMNode type attrs children))"
| "serialize_node render (PMText s) = render (PMText s)"

text \<open>The Markdown the copy handler puts on the clipboard for a fragment.\<close>

definition copy_markdown :: "(pm_node \<Rightarrow> dom) \<Rightarrow> pm_node list \<Rightarrow> string" where
  "copy_markdown render nodes =
     js_trim (domToMarkdown (DElem ''div'' [] (map (serialize_node render) nodes)))"

section \<open>Specification-level notions\<close>

text \<open>
  The offsets at which \<open>split\<close> cut the text, from the spans and the offset \<open>p\<close> of
  the first span.  The first loop of the scanner computes exactly these.
\<close>

fun offsets :: "nat \<Rightarrow> string list \<Rightarrow> nat list" where
  "offsets p (x # y # ys) = (p + length x) # offsets (p + length x + 3) (y # ys)"
| "offsets p xs = []"

text \<open>The test of the scanner on one span, and the block it pushes at index \<open>i\<close>.\<close>

definition is_mermaid_part :: "string \<Rightarrow> bool" where
  "is_mermaid_part part \<longleftrightarrow> first_line part = Some ''mermaid''"

definition block_at :: "string \<Rightarrow> nat \<Rightarrow> MermaidBlock" where
  "block_at md i =
     (let parts = split_fence md; pos = offsets 0 parts
      in \<lparr>content = mermaid_content (parts ! (i + 1)),
          startIndex = Some (pos ! i),
          endIndex = (if i + 1 < length pos then pos ! (i + 1) + 3 else length md),
          diagramType = detectDiagramType (mermaid_content (parts ! (i + 1)))\<rparr>)"

text \<open>
  The blockquote rule in the words of the specification: the children's Markdown split on
  newlines, each non-empty line prefixed with \<open>> \<close>, empty lines left as they are, and
  a trailing newline.
\<close>

definition blockquote_claimed :: "string \<Rightarrow> string" where
  "blockquote_claimed inner =
     js_join ''\<newline>'' (map (\<lambda>line. if line \<noteq> [] then ''> '' @ line else line) (split_nl inner))
       @ ''\<newline>''"

text \<open>
  The blockquote rule as both serializers have it: the children's Markdown trimmed and
  split on newlines, every line prefixed with \<open>> \<close> and ended by a newline, and one more
  newline.
\<close>

definition quote_lines :: "string \<Rightarrow> string" where
  "quote_lines inner =
     concat (map (\<lambda>line. ''> '' @ line @ ''\<newline>'') (split_nl (js_trim inner))) @ ''\<newline>''"

subsection \<open>Notions for the round trip\<close>

text \<open>
  The contents the scanner extracts from a text are those of the spans after the first
  delimiter that pass its test (\<open>segment_contents\<close>); \<open>span_contents\<close> counts the first
  span too.
\<close>

definition span_contents :: "string \<Rightarrow> string list" where
  "span_contents s = map mermaid_content (filter is_mermaid_part (split_fence s))"

definition segment_contents :: "string \<Rightarrow> string list" where
  "segment_contents s = map mermaid_content (filter is_mermaid_part (tl (split_fence s)))"

text \<open>A span that can be followed by a delimiter without moving it: it does not end in a backtick.\<close>

definition no_tick_end :: "string \<Rightarrow> bool" where
  "no_tick_end s \<longleftrightarrow> s = [] \<or> last s \<noteq> CHR ''`''"

text \<open>
  The source text of a diagram node (the text of its text children), the Markdown the copy
  path emits for it, and the span between its two delimiters.
\<close>

fun node_text :: "pm_node \<Rightarrow> string" where
  "node_text (PMText s) = s"
| "node_text (PMNode type attrs children) = []"

fun diagram_text :: "pm_node \<Rightarrow> string" where
  "diagram_text (PMNode type attrs children) = concat (map node_text children)"
| "diagram_text (PMText s) = []"

definition diagram_md :: "string \<Rightarrow> string" where
  "diagram_md c = fence @ ''mermaid'' @ ''\<newline>'' @ c @ ''\<newline>'' @ fence @ ''\<newline>\<newline>''"

definition tag_span :: "string \<Rightarrow> string" where
  "tag_span c = ''mermaid'' @ ''\<newline>'' @ c @ ''\<newline>''"

text \<open>A text the scanner can have produced as \<open>content\<close>: trimmed and free of the delimiter.\<close>

definition good_text :: "string \<Rightarrow> bool" where
  "good_text c \<longleftrightarrow> find_fence c = None \<and> js_trim c = c"

text \<open>
  The condition on the nodes that are not diagram blocks.  \<open>gap\<close> collects the Markdown
  emitted since the last diagram block (\<open>leading\<close>: since the start).  No span of a gap
  may pass the test of the scanner (the first span of the leading gap is exempt, as the
  scanner never tests it), and a gap that a diagram block follows may not end in a
  backtick.  After a diagram block the gap starts with the two newlines that end the
  block's Markdown.
\<close>

definition gap_quiet :: "bool \<Rightarrow> string \<Rightarrow> bool" where
  "gap_quiet leading gap \<longleftrightarrow>
     filter is_mermaid_part (if leading then tl (split_fence gap) else split_fence gap) = []"

fun others_quiet :: "(pm_node \<Rightarrow> dom) \<Rightarrow> bool \<Rightarrow> string \<Rightarrow> pm_node list \<Rightarrow> bool" where
  "others_quiet render leading gap [] = gap_quiet leading gap"
| "others_quiet render leading gap (n # ns) =
     (if is_mermaid_node n
      then gap_quiet leading gap \<and> no_tick_end (last (split_fence gap)) \<and>
           others_quiet render False ''\<newline>\<newline>'' ns
      else others_quiet render leading (gap @ dom_node ''div'' (serialize_node render n)) ns)"

subsection \<open>Notions for the conversion of plain spans and for the paste adapter\<close>

text \<open>
  Handing a whole text to the external converter, in the words of the specification:
  \<open>marked\<close> on the text, then the parse of its HTML.
\<close>

definition delegate_whole :: "marked_fn \<Rightarrow> parse_fn \<Rightarrow> string \<Rightarrow> pm_node list option" where
  "delegate_whole marked parseSlice md =
     (case marked md of None \<Rightarrow> None | Some html \<Rightarrow> parseSlice html)"

text \<open>
  The case that \<open>convertMarkdownToHTML\<close> and the paste adapter set apart: more than one
  non-blank line, and no line with block-level syntax.  Then every non-blank line goes
  through \<open>marked\<close> on its own and the HTML is concatenated.
\<close>

definition nonblank_lines :: "string \<Rightarrow> string list" where
  "nonblank_lines md = filter (\<lambda>line. js_trim line \<noteq> []) (split_nl md)"

definition plain_lines :: "string \<Rightarrow> bool" where
  "plain_lines md \<longleftrightarrow>
     length (nonblank_lines md) > 1 \<and> \<not> list_ex block_syntax_line (nonblank_lines md)"

definition delegate_lines :: "marked_fn \<Rightarrow> parse_fn \<Rightarrow> string \<Rightarrow> pm_node list option" where
  "delegate_lines marked parseSlice md =
     (case those (map marked (nonblank_lines md)) of
        None \<Rightarrow> None
      | Some htmls \<Rightarrow> parseSlice (concat htmls))"



section \<open>Properties of the string primitives\<close>

subsection \<open>Lines\<close>

lemma split_nl_nonempty: "split_nl s \<noteq> []"
  by (induction s) (auto split: list.splits)

lemma split_nl_hd: "js_index (split_nl s) 0 = Some (takeWhile (\<lambda>c. c \<noteq> CHR 0x0A) s)"
  by (induction s) (auto split: list.splits)

lemma js_join_split_nl: "js_join [CHR 0x0A] (split_nl s) = s"
proof (induction s)
  case Nil
  then show ?case by simp
next
  case (Cons c cs)
  show ?case
  proof (cases "split_nl cs")
    case Nil
    then show ?thesis using split_nl_nonempty by blast
  next
    case (Cons l ls)
    then show ?thesis using Cons.IH
      by (cases ls) auto
  qed
qed

lemma split_nl_tl:
  "tl (split_nl s) =
     (case dropWhile (\<lambda>c. c \<noteq> CHR 0x0A) s of [] \<Rightarrow> [] | _ # r \<Rightarrow> split_nl r)"
proof (induction s)
  case Nil
  show ?case by simp
next
  case (Cons c cs)
  show ?case
  proof (cases "c = CHR 0x0A")
    case True
    then show ?thesis by simp
  next
    case False
    obtain l ls where "split_nl cs = l # ls"
      using split_nl_nonempty by (cases "split_nl cs") auto
    then show ?thesis using False Cons.IH by simp
  qed
qed

lemma join_tail_lines:
  "js_join [CHR 0x0A] (drop 1 (split_nl s)) = tl (dropWhile (\<lambda>c. c \<noteq> CHR 0x0A) s)"
proof (cases "dropWhile (\<lambda>c. c \<noteq> CHR 0x0A) s")
  case Nil
  have "tl (split_nl s) = []" unfolding split_nl_tl Nil by simp
  then show ?thesis unfolding Nil by (simp add: drop_Suc)
next
  case (Cons c r)
  have "tl (split_nl s) = split_nl r" unfolding split_nl_tl Cons by simp
  then show ?thesis unfolding Cons by (simp add: drop_Suc js_join_split_nl)
qed

lemma first_line_eq:
  "first_line part = Some (js_trim (takeWhile (\<lambda>c. c \<noteq> CHR 0x0A) (js_trim part)))"
  by (simp add: first_line_def split_nl_hd)

lemma mermaid_content_eq:
  "mermaid_content part = js_trim (tl (dropWhile (\<lambda>c. c \<noteq> CHR 0x0A) part))"
  unfolding mermaid_content_def join_tail_lines ..

subsection \<open>Occurrences of the fence delimiter\<close>

lemma find_fence_take: "find_fence s = Some k \<Longrightarrow> find_fence (take k s) = None"
proof (induction s arbitrary: k rule: find_fence.induct)
  case (1 a b c cs)
  show ?case
  proof (cases "a = CHR ''`'' \<and> b = CHR ''`'' \<and> c = CHR ''`''")
    case True
    then show ?thesis using 1 by simp
  next
    case False
    then obtain k' where k': "find_fence (b # c # cs) = Some k'" "k = Suc k'"
      using 1(2) by auto
    then have ih: "find_fence (take k' (b # c # cs)) = None" using 1(1) False by blast
    show ?thesis
    proof (cases k')
      case 0
      then show ?thesis using k' by simp
    next
      case (Suc j)
      then show ?thesis using k' ih False by (cases j) auto
    qed
  qed
qed simp_all

lemma find_fence_None_iff: "find_fence s = None \<longleftrightarrow> (\<forall>p q. s \<noteq> p @ fence @ q)"
proof (induction s rule: find_fence.induct)
  case (1 a b c cs)
  show ?case
  proof (cases "a = CHR ''`'' \<and> b = CHR ''`'' \<and> c = CHR ''`''")
    case True
    then have "a # b # c # cs = [] @ fence @ cs" by (simp add: fence_def)
    then show ?thesis using True by (metis find_fence.simps(1) option.distinct(1))
  next
    case False
    have "(\<exists>p q. a # b # c # cs = p @ fence @ q) \<longleftrightarrow> (\<exists>p q. b # c # cs = p @ fence @ q)"
    proof
      assume "\<exists>p q. a # b # c # cs = p @ fence @ q"
      then obtain p q where pq: "a # b # c # cs = p @ fence @ q" by blast
      show "\<exists>p q. b # c # cs = p @ fence @ q"
      proof (cases p)
        case Nil
        then show ?thesis using pq False by (auto simp: fence_def)
      next
        case (Cons x p')
        then show ?thesis using pq by auto
      qed
    next
      assume "\<exists>p q. b # c # cs = p @ fence @ q"
      then obtain p q where "b # c # cs = p @ fence @ q" by blast
      then have "a # b # c # cs = (a # p) @ fence @ q" by simp
      then show "\<exists>p q. a # b # c # cs = p @ fence @ q" by blast
    qed
    then show ?thesis using 1 False by auto
  qed
qed (auto simp: fence_def Cons_eq_append_conv)

lemma fence_free_take: "find_fence s = None \<Longrightarrow> find_fence (take n s) = None"
  unfolding find_fence_None_iff
  by (metis append.assoc append_take_drop_id)

lemma fence_free_drop: "find_fence s = None \<Longrightarrow> find_fence (drop n s) = None"
  unfolding find_fence_None_iff
  by (metis append.assoc append_take_drop_id)

lemma fence_free_dropWhile: "find_fence s = None \<Longrightarrow> find_fence (dropWhile P s) = None"
  by (metis dropWhile_eq_drop fence_free_drop)

lemma fence_free_rev: "find_fence (rev s) = None \<longleftrightarrow> find_fence s = None"
proof -
  have r: "rev fence = fence" by (simp add: fence_def)
  have "(\<exists>p q. rev s = p @ fence @ q) \<longleftrightarrow> (\<exists>p q. s = p @ fence @ q)"
  proof
    assume "\<exists>p q. rev s = p @ fence @ q"
    then obtain p q where "rev s = p @ fence @ q" by blast
    then have "s = rev q @ fence @ rev p" using r by (metis append.assoc rev_append rev_rev_ident)
    then show "\<exists>p q. s = p @ fence @ q" by blast
  next
    assume "\<exists>p q. s = p @ fence @ q"
    then obtain p q where "s = p @ fence @ q" by blast
    then have "rev s = rev q @ fence @ rev p" using r by simp
    then show "\<exists>p q. rev s = p @ fence @ q" by blast
  qed
  then show ?thesis unfolding find_fence_None_iff by blast
qed

lemma fence_free_trim: "find_fence s = None \<Longrightarrow> find_fence (js_trim s) = None"
  unfolding js_trim_def by (simp add: fence_free_rev fence_free_dropWhile)

lemma fence_free_tl: "find_fence s = None \<Longrightarrow> find_fence (tl s) = None"
  by (metis drop_0 drop_Suc fence_free_drop)

lemma split_fence_nonempty: "split_fence s \<noteq> []"
  by (subst split_fence.simps) (simp split: option.splits)

lemma split_fence_parts_free: "p \<in> set (split_fence s) \<Longrightarrow> find_fence p = None"
proof (induction s rule: split_fence.induct)
  case (1 s)
  show ?case
  proof (cases "find_fence s")
    case None
    then have "split_fence s = [s]" by (subst split_fence.simps) simp
    then show ?thesis using 1(2) None by simp
  next
    case (Some k)
    then have eq: "split_fence s = take k s # split_fence (drop (k + 3) s)"
      by (subst split_fence.simps) simp
    then show ?thesis using 1 Some find_fence_take by auto
  qed
qed

lemma split_fence_None: "find_fence s = None \<Longrightarrow> split_fence s = [s]"
  by (subst split_fence.simps) simp

lemma split_fence_Some:
  "find_fence s = Some k \<Longrightarrow> split_fence s = take k s # split_fence (drop (k + 3) s)"
  by (subst split_fence.simps) simp

subsection \<open>The offsets of the delimiters\<close>

lemma length_offsets: "length (offsets p xs) = length xs - 1"
  by (induction p xs rule: offsets.induct) auto

lemma positions_loop_offsets:
  "positions_loop md (length (split_fence (drop p md)) - 1) p = offsets p (split_fence (drop p md))"
proof (induction "drop p md" arbitrary: p rule: split_fence.induct)
  case 1
  show ?case
  proof (cases "find_fence (drop p md)")
    case None
    then show ?thesis by (simp add: split_fence_None)
  next
    case (Some k)
    let ?rest = "split_fence (drop (k + 3) (drop p md))"
    have sp: "split_fence (drop p md) = take k (drop p md) # ?rest"
      using Some by (rule split_fence_Some)
    have d: "drop (k + 3) (drop p md) = drop (k + p + 3) md" by (simp add: ac_simps)
    have ne: "?rest \<noteq> []" by (rule split_fence_nonempty)
    then obtain y ys where r: "?rest = y # ys" by (cases ?rest) auto
    have len: "length (take k (drop p md)) = k"
      using find_fence_bound[OF Some] by simp
    have ih: "positions_loop md (length ?rest - 1) (k + p + 3) = offsets (k + p + 3) ?rest"
      using 1[OF Some d] d by simp
    have "positions_loop md (length (split_fence (drop p md)) - 1) p
            = (k + p) # positions_loop md (length ?rest - 1) (k + p + 3)"
      using Some r by (simp add: sp index_of_fence_def)
    moreover have "offsets p (split_fence (drop p md)) = (p + k) # offsets (p + k + 3) ?rest"
      using r len by (simp add: sp)
    ultimately show ?thesis using ih by (simp add: add.commute)
  qed
qed

lemma positions_eq:
  "positions_loop md (length (split_fence md) - 1) 0 = offsets 0 (split_fence md)"
  using positions_loop_offsets[of md 0] by simp

lemma those_map_Some: "(\<And>x. x \<in> set xs \<Longrightarrow> f x = Some (g x)) \<Longrightarrow> those (map f xs) = Some (map g xs)"
  by (induction xs) auto

lemma js_index_nth: "i < length xs \<Longrightarrow> js_index xs i = Some (xs ! i)"
  by (induction xs i rule: js_index.induct) auto

lemma js_index_None: "length xs \<le> i \<Longrightarrow> js_index xs i = None"
  by (induction xs i rule: js_index.induct) auto

section \<open>What the scanner returns\<close>

lemma scan_part_eq:
  assumes "i + 1 < length (split_fence md)"
  shows "scan_part md (split_fence md) (offsets 0 (split_fence md)) i =
           Some (if is_mermaid_part (split_fence md ! (i + 1)) then [block_at md i] else [])"
proof -
  let ?parts = "split_fence md"
  let ?pos = "offsets 0 ?parts"
  have p: "js_index ?parts (i + 1) = Some (?parts ! (i + 1))"
    using assms by (rule js_index_nth)
  have "i < length ?pos" using assms by (simp add: length_offsets)
  then have s: "js_index ?pos i = Some (?pos ! i)" by (rule js_index_nth)
  have e: "(case js_index ?pos (i + 1) of Some p \<Rightarrow> p + 3 | None \<Rightarrow> length md) =
           (if i + 1 < length ?pos then ?pos ! (i + 1) + 3 else length md)"
    by (simp add: js_index_nth js_index_None)
  obtain fl where fl: "first_line (?parts ! (i + 1)) = Some fl"
    by (simp add: first_line_eq)
  show ?thesis
    unfolding scan_part_def p option.case fl is_mermaid_part_def s e block_at_def Let_def
    by simp
qed

lemma concat_map_if:
  "concat (map (\<lambda>x. if P x then [f x] else []) xs) = map f (filter P xs)"
  by (induction xs) auto

theorem extract_eq:
  "extractMermaidBlocks md =
     Some (map (block_at md)
             (filter (\<lambda>i. is_mermaid_part (split_fence md ! (i + 1)))
                [0..<length (split_fence md) - 1]))"
proof -
  let ?parts = "split_fence md"
  let ?g = "\<lambda>i. if is_mermaid_part (?parts ! (i + 1)) then [block_at md i] else []"
  have "those (map (scan_part md ?parts (offsets 0 ?parts)) [0..<length ?parts - 1])
          = Some (map ?g [0..<length ?parts - 1])"
    by (rule those_map_Some) (simp add: scan_part_eq)
  then show ?thesis
    unfolding extractMermaidBlocks_def Let_def positions_eq
    by (simp add: concat_map_if)
qed

section \<open>The classifier\<close>

lemma detect_loop_find:
  "detect_loop ps s =
     (case find (\<lambda>(regex, ty). regex s) ps of Some (regex, ty) \<Rightarrow> ty | None \<Rightarrow> ''flowchart'')"
  by (induction ps s rule: detect_loop.induct) simp_all

lemma detect_loop_range: "detect_loop ps s \<in> insert ''flowchart'' (snd ` set ps)"
proof (induction ps s rule: detect_loop.induct)
  case (1 content)
  show ?case by simp
next
  case (2 regex type rest content)
  show ?case
  proof (cases "regex content")
    case True
    then show ?thesis by simp
  next
    case False
    then show ?thesis using 2 by auto
  qed
qed

lemma typePatterns_range:
  "insert ''flowchart'' (snd ` set typePatterns) \<subseteq> set MermaidDiagramType"
  unfolding typePatterns_def MermaidDiagramType_def by simp

text \<open>
  C7.  \<open>detectDiagramType\<close> is a function of its argument alone (the expressions carry no
  flag \<open>g\<close> or \<open>y\<close>, so \<open>test\<close> keeps no state), and for every string it returns one of
  the fourteen kind tags, which are pairwise distinct: the type of the first pattern of
  \<open>typePatterns\<close>, in the order of the list, that matches, and \<open>flowchart\<close> when none does.
\<close>

theorem detectDiagramType_total:
  "detectDiagramType s \<in> set MermaidDiagramType \<and>
   length MermaidDiagramType = 14 \<and> distinct MermaidDiagramType \<and>
   detectDiagramType s =
     (case find (\<lambda>(regex, ty). regex s) typePatterns of
        Some (regex, ty) \<Rightarrow> ty | None \<Rightarrow> ''flowchart'')"
proof (intro conjI)
  have "detect_loop typePatterns s \<in> insert ''flowchart'' (snd ` set typePatterns)"
    by (rule detect_loop_range)
  with typePatterns_range show "detectDiagramType s \<in> set MermaidDiagramType"
    unfolding detectDiagramType_def by (rule subsetD)
  show "length MermaidDiagramType = 14" unfolding MermaidDiagramType_def by simp
  show "distinct MermaidDiagramType" unfolding MermaidDiagramType_def by simp
  show "detectDiagramType s =
     (case find (\<lambda>(regex, ty). regex s) typePatterns of
        Some (regex, ty) \<Rightarrow> ty | None \<Rightarrow> ''flowchart'')"
    unfolding detectDiagramType_def by (rule detect_loop_find)
qed

text \<open>
  Both \<open>/^gantt/im\<close> and \<open>/^pie/im\<close> match the text below; \<open>gantt\<close> stands earlier in the
  list and wins.
\<close>

theorem detectDiagramType_total_witness:
  "detectDiagramType ''pie title Pets\<newline>gantt'' = ''gantt''"
proof -
  have e: "detectDiagramType ''pie title Pets\<newline>gantt'' = ''gantt''" by code_simp
  show ?thesis using detectDiagramType_total[of "''pie title Pets\<newline>gantt''"] e by simp
qed

section \<open>Diagram content is free of the delimiter\<close>

lemma mermaid_content_free:
  assumes "find_fence part = None"
  shows "find_fence (mermaid_content part) = None"
  unfolding mermaid_content_eq
  by (intro fence_free_trim fence_free_tl fence_free_dropWhile assms)

text \<open>
  C10.  For every text the scanner returns (it does not throw), and no \<open>content\<close> of a
  returned segment contains the delimiter \<open>```\<close>.
\<close>

theorem content_has_no_fence:
  "\<exists>blocks. extractMermaidBlocks md = Some blocks \<and>
     (\<forall>b \<in> set blocks. \<forall>p q. content b \<noteq> p @ fence @ q)"
proof -
  let ?parts = "split_fence md"
  let ?is = "filter (\<lambda>i. is_mermaid_part (?parts ! (i + 1))) [0..<length ?parts - 1]"
  have "\<forall>p q. content b \<noteq> p @ fence @ q" if "b \<in> set (map (block_at md) ?is)" for b
  proof -
    from that obtain i where i: "i < length ?parts - 1" and b: "b = block_at md i" by auto
    then have "?parts ! (i + 1) \<in> set ?parts" by simp
    then have "find_fence (?parts ! (i + 1)) = None" by (rule split_fence_parts_free)
    then have "find_fence (mermaid_content (?parts ! (i + 1))) = None"
      by (rule mermaid_content_free)
    moreover have "content b = mermaid_content (?parts ! (i + 1))"
      unfolding b block_at_def Let_def by simp
    ultimately show ?thesis by (simp add: find_fence_None_iff)
  qed
  then show ?thesis unfolding extract_eq by blast
qed

theorem content_has_no_fence_witness:
  "extractMermaidBlocks ''a```mermaid\<newline>graph TD\<newline>```b'' =
     Some [\<lparr>content = ''graph TD'', startIndex = Some 1, endIndex = 24,
            diagramType = ''flowchart''\<rparr>]
   \<and> (\<forall>p q. ''graph TD'' \<noteq> p @ fence @ q)"
proof -
  have e: "extractMermaidBlocks ''a```mermaid\<newline>graph TD\<newline>```b'' =
     Some [\<lparr>content = ''graph TD'', startIndex = Some 1, endIndex = 24,
            diagramType = ''flowchart''\<rparr>]"
    by code_simp
  show ?thesis
    using content_has_no_fence[of "''a```mermaid\<newline>graph TD\<newline>```b''"] e by simp
qed

section \<open>Text without a fence\<close>

lemma std_nodes_cases:
  "std_nodes marked parseSlice md =
     (if plain_lines md then delegate_lines marked parseSlice md
      else delegate_whole marked parseSlice md)"
proof (cases "plain_lines md")
  case True
  then have "convertMarkdownToHTML marked md = map_option concat (those (map marked (nonblank_lines md)))"
    unfolding convertMarkdownToHTML_def plain_lines_def nonblank_lines_def Let_def by simp
  then show ?thesis using True
    unfolding std_nodes_def delegate_lines_def by (simp split: option.splits)
next
  case False
  then have "convertMarkdownToHTML marked md = marked md"
    unfolding convertMarkdownToHTML_def plain_lines_def nonblank_lines_def Let_def by auto
  then show ?thesis using False
    unfolding std_nodes_def delegate_whole_def by simp
qed

text \<open>
  C3 (as amended).  A text with no occurrence of the delimiter \<open>```\<close> yields no diagram
  node and no separator paragraph: the result is that of the HTML-parse path alone.  That
  path hands the entire text to \<open>marked\<close> and parses the HTML, except for a text with
  more than one non-blank line and no line of block-level syntax, whose non-blank lines
  go through \<open>marked\<close> one by one, the concatenated HTML being parsed.
\<close>

theorem no_fence_conversion:
  assumes "\<forall>p q. md \<noteq> p @ fence @ q"
  shows "convertMarkdownToTipTapNodes marked parseSlice md =
           (if plain_lines md then delegate_lines marked parseSlice md
            else delegate_whole marked parseSlice md)"
proof -
  have "find_fence md = None" using assms by (simp add: find_fence_None_iff)
  then have "split_fence md = [md]" by (rule split_fence_None)
  then have "extractMermaidBlocks md = Some []" unfolding extract_eq by simp
  then have "convertMarkdownToTipTapNodes marked parseSlice md = std_nodes marked parseSlice md"
    unfolding convertMarkdownToTipTapNodes_def by simp
  then show ?thesis unfolding std_nodes_cases .
qed

theorem no_fence_conversion_witness:
  "(\<forall>p q. ''# Title\<newline>text'' \<noteq> p @ fence @ q) \<and>
   \<not> plain_lines ''# Title\<newline>text'' \<and>
   convertMarkdownToTipTapNodes
      (\<lambda>s. if s = ''# Title\<newline>text'' then Some ''<h1>Title</h1>\<newline><p>text</p>\<newline>'' else None)
      (\<lambda>html. if html = ''<h1>Title</h1>\<newline><p>text</p>\<newline>''
         then Some [PMNode ''heading'' [(''level'', ''1'')] [PMText ''Title''],
                    PMNode ''paragraph'' [] [PMText ''text'']]
         else None)
      ''# Title\<newline>text''
     = Some [PMNode ''heading'' [(''level'', ''1'')] [PMText ''Title''],
             PMNode ''paragraph'' [] [PMText ''text'']] \<and>
   (\<forall>p q. ''a\<newline>b'' \<noteq> p @ fence @ q) \<and>
   plain_lines ''a\<newline>b'' \<and>
   convertMarkdownToTipTapNodes
      (\<lambda>s. Some (''<p>'' @ s @ ''</p>\<newline>''))
      (\<lambda>html. if html = ''<p>a</p>\<newline><p>b</p>\<newline>''
         then Some [PMNode ''paragraph'' [] [PMText ''a''], PMNode ''paragraph'' [] [PMText ''b'']]
         else if html = ''<p>a\<newline>b</p>\<newline>''
         then Some [PMNode ''paragraph'' [] [PMText ''a\<newline>b'']]
         else None)
      ''a\<newline>b''
     = Some [PMNode ''paragraph'' [] [PMText ''a''], PMNode ''paragraph'' [] [PMText ''b'']]"
proof -
  let ?m1 = "\<lambda>s. if s = ''# Title\<newline>text'' then Some ''<h1>Title</h1>\<newline><p>text</p>\<newline>'' else None"
  let ?p1 = "\<lambda>html. if html = ''<h1>Title</h1>\<newline><p>text</p>\<newline>''
         then Some [PMNode ''heading'' [(''level'', ''1'')] [PMText ''Title''],
                    PMNode ''paragraph'' [] [PMText ''text'']]
         else None"
  let ?m2 = "\<lambda>s. Some (''<p>'' @ s @ ''</p>\<newline>'')"
  let ?p2 = "\<lambda>html. if html = ''<p>a</p>\<newline><p>b</p>\<newline>''
         then Some [PMNode ''paragraph'' [] [PMText ''a''], PMNode ''paragraph'' [] [PMText ''b'']]
         else if html = ''<p>a\<newline>b</p>\<newline>''
         then Some [PMNode ''paragraph'' [] [PMText ''a\<newline>b'']]
         else None"
  have "find_fence ''# Title\<newline>text'' = None" by code_simp
  then have h1: "\<forall>p q. ''# Title\<newline>text'' \<noteq> p @ fence @ q" by (rule iffD1[OF find_fence_None_iff])
  have "find_fence ''a\<newline>b'' = None" by code_simp
  then have h2: "\<forall>p q. ''a\<newline>b'' \<noteq> p @ fence @ q" by (rule iffD1[OF find_fence_None_iff])
  have n1: "\<not> plain_lines ''# Title\<newline>text''" by code_simp
  have n2: "plain_lines ''a\<newline>b''" by code_simp
  have w: "delegate_whole ?m1 ?p1 ''# Title\<newline>text'' =
             Some [PMNode ''heading'' [(''level'', ''1'')] [PMText ''Title''],
                   PMNode ''paragraph'' [] [PMText ''text'']]" by code_simp
  have l: "delegate_lines ?m2 ?p2 ''a\<newline>b'' =
             Some [PMNode ''paragraph'' [] [PMText ''a''], PMNode ''paragraph'' [] [PMText ''b'']]"
    by code_simp
  have c1: "convertMarkdownToTipTapNodes ?m1 ?p1 ''# Title\<newline>text'' =
             Some [PMNode ''heading'' [(''level'', ''1'')] [PMText ''Title''],
                   PMNode ''paragraph'' [] [PMText ''text'']]"
    unfolding no_fence_conversion[OF h1] using n1 w by simp
  have c2: "convertMarkdownToTipTapNodes ?m2 ?p2 ''a\<newline>b'' =
             Some [PMNode ''paragraph'' [] [PMText ''a''], PMNode ''paragraph'' [] [PMText ''b'']]"
    unfolding no_fence_conversion[OF h2] using n2 l by simp
  show ?thesis by (intro conjI h1 n1 c1 h2 n2 c2)
qed

text \<open>
  The text \<open>a\nb\<close> has two non-blank lines and no block-level syntax.  With \<open>marked\<close>
  wrapping what it is given in a paragraph, the converter parses \<open><p>a</p>\n<p>b</p>\n\<close>
  into two paragraphs, while \<open>marked\<close> on the entire text gives \<open><p>a\nb</p>\n\<close>, one
  paragraph.
\<close>

theorem no_fence_not_whole:
  "find_fence ''a\<newline>b'' = None \<and>
   convertMarkdownToTipTapNodes
      (\<lambda>s. Some (''<p>'' @ s @ ''</p>\<newline>''))
      (\<lambda>html. if html = ''<p>a</p>\<newline><p>b</p>\<newline>''
         then Some [PMNode ''paragraph'' [] [PMText ''a''], PMNode ''paragraph'' [] [PMText ''b'']]
         else if html = ''<p>a\<newline>b</p>\<newline>''
         then Some [PMNode ''paragraph'' [] [PMText ''a\<newline>b'']]
         else None)
      ''a\<newline>b''
     = Some [PMNode ''paragraph'' [] [PMText ''a''], PMNode ''paragraph'' [] [PMText ''b'']] \<and>
   delegate_whole
      (\<lambda>s. Some (''<p>'' @ s @ ''</p>\<newline>''))
      (\<lambda>html. if html = ''<p>a</p>\<newline><p>b</p>\<newline>''
         then Some [PMNode ''paragraph'' [] [PMText ''a''], PMNode ''paragraph'' [] [PMText ''b'']]
         else if html = ''<p>a\<newline>b</p>\<newline>''
         then Some [PMNode ''paragraph'' [] [PMText ''a\<newline>b'']]
         else None)
      ''a\<newline>b''
     = Some [PMNode ''paragraph'' [] [PMText ''a\<newline>b'']] \<and>
   convertMarkdownToTipTapNodes
      (\<lambda>s. Some (''<p>'' @ s @ ''</p>\<newline>''))
      (\<lambda>html. if html = ''<p>a</p>\<newline><p>b</p>\<newline>''
         then Some [PMNode ''paragraph'' [] [PMText ''a''], PMNode ''paragraph'' [] [PMText ''b'']]
         else if html = ''<p>a\<newline>b</p>\<newline>''
         then Some [PMNode ''paragraph'' [] [PMText ''a\<newline>b'']]
         else None)
      ''a\<newline>b''
     \<noteq> delegate_whole
      (\<lambda>s. Some (''<p>'' @ s @ ''</p>\<newline>''))
      (\<lambda>html. if html = ''<p>a</p>\<newline><p>b</p>\<newline>''
         then Some [PMNode ''paragraph'' [] [PMText ''a''], PMNode ''paragraph'' [] [PMText ''b'']]
         else if html = ''<p>a\<newline>b</p>\<newline>''
         then Some [PMNode ''paragraph'' [] [PMText ''a\<newline>b'']]
         else None)
      ''a\<newline>b''"
  by code_simp

section \<open>An unterminated fence\<close>

lemma filter_upt_last:
  assumes "P n"
  shows "filter P [0..<Suc n] \<noteq> [] \<and> last (filter P [0..<Suc n]) = n"
  using assms by simp

text \<open>
  C6.  When the number of delimiters is odd (an even number of spans) and the span after
  the last delimiter starts with the tag line \<open>mermaid\<close>, the scanner returns, its
  result is not empty, and the last segment ends at the length of the text.
\<close>

theorem unterminated_fence_runs_to_end:
  assumes "even (length (split_fence md))"
      and "is_mermaid_part (last (split_fence md))"
  shows "\<exists>blocks. extractMermaidBlocks md = Some blocks \<and> blocks \<noteq> [] \<and>
           endIndex (last blocks) = length md"
proof -
  let ?parts = "split_fence md"
  let ?P = "\<lambda>i. is_mermaid_part (?parts ! (i + 1))"
  have ne: "?parts \<noteq> []" by (rule split_fence_nonempty)
  then have "length ?parts \<noteq> 1" using assms(1) by auto
  moreover have "length ?parts \<noteq> 0" using ne by simp
  ultimately have "2 \<le> length ?parts" by arith
  then obtain n where n: "length ?parts = Suc (Suc n)"
    by (metis Suc_le_D numeral_2_eq_2 Suc_le_mono)
  have "last ?parts = ?parts ! (n + 1)" using n ne by (simp add: last_conv_nth)
  then have Pn: "?P n" using assms(2) by simp
  have up: "[0..<length ?parts - 1] = [0..<Suc n]" using n by simp
  let ?is = "filter ?P [0..<Suc n]"
  have isne: "?is \<noteq> []" and islast: "last ?is = n"
    using filter_upt_last[of ?P n, OF Pn] by blast+
  have ex: "extractMermaidBlocks md = Some (map (block_at md) ?is)"
    unfolding extract_eq up ..
  have "last (map (block_at md) ?is) = block_at md (last ?is)"
    using isne by (rule last_map)
  then have "last (map (block_at md) ?is) = block_at md n"
    unfolding islast .
  moreover have "endIndex (block_at md n) = length md"
    unfolding block_at_def Let_def using n by (simp add: length_offsets)
  ultimately have "endIndex (last (map (block_at md) ?is)) = length md" by simp
  moreover have "map (block_at md) ?is \<noteq> []" using isne by simp
  ultimately show ?thesis using ex by blast
qed

theorem unterminated_fence_runs_to_end_witness:
  "extractMermaidBlocks ''intro\<newline>```mermaid\<newline>graph TD\<newline>A-->B'' =
     Some [\<lparr>content = ''graph TD\<newline>A-->B'', startIndex = Some 6, endIndex = 31,
            diagramType = ''flowchart''\<rparr>]
   \<and> length ''intro\<newline>```mermaid\<newline>graph TD\<newline>A-->B'' = 31"
proof -
  let ?md = "''intro\<newline>```mermaid\<newline>graph TD\<newline>A-->B''"
  have sp: "split_fence ?md = [''intro\<newline>'', ''mermaid\<newline>graph TD\<newline>A-->B'']" by code_simp
  have m: "is_mermaid_part ''mermaid\<newline>graph TD\<newline>A-->B''" by code_simp
  have a: "even (length (split_fence ?md))" unfolding sp by simp
  have b: "is_mermaid_part (last (split_fence ?md))" unfolding sp using m by simp
  have e: "extractMermaidBlocks ?md =
     Some [\<lparr>content = ''graph TD\<newline>A-->B'', startIndex = Some 6, endIndex = 31,
            diagramType = ''flowchart''\<rparr>]" by code_simp
  show ?thesis using unterminated_fence_runs_to_end[OF a b] e by simp
qed

section \<open>The paste adapter when the conversion throws\<close>







section \<open>Spans the scanner takes for diagrams\<close>

text \<open>
  C4.  In the text below the first two delimiters fence a \<open>js\<close> code block; the span
  after the closing delimiter, which is outside every fence, has \<open>mermaid\<close> as its first
  non-blank line, and the scanner returns it as a diagram segment that starts at the
  closing delimiter of the code block.
\<close>

theorem span_after_closing_fence_is_scanned:
  "split_fence ''```js\<newline>x\<newline>```\<newline>mermaid\<newline>y'' =
     [[], ''js\<newline>x\<newline>'', ''\<newline>mermaid\<newline>y''] \<and>
   extractMermaidBlocks ''```js\<newline>x\<newline>```\<newline>mermaid\<newline>y'' =
     Some [\<lparr>content = ''mermaid\<newline>y'', startIndex = Some 8, endIndex = 21,
            diagramType = ''flowchart''\<rparr>]"
  by code_simp

text \<open>
  C2.  The text below holds one fence, \<open>```mermaid\nA\n```\<close>, followed by a line
  \<open>mermaid\<close>.  Whatever the external converter does, the result holds two
  \<open>mermaidBlock\<close> nodes, and the text after the fence is not converted at all.
\<close>

theorem trailing_text_becomes_second_diagram:
  "convertMarkdownToTipTapNodes marked parseSlice ''```mermaid\<newline>A\<newline>```\<newline>mermaid'' =
     Some [PMNode ''mermaidBlock''
             [(''diagramType'', ''flowchart''), (''viewMode'', ''preview''), (''theme'', ''default'')]
             [PMText ''A''],
           PMNode ''paragraph'' [] [],
           PMNode ''mermaidBlock''
             [(''diagramType'', ''flowchart''), (''viewMode'', ''preview''), (''theme'', ''default'')]
             [PMText ''mermaid'']]"
  by code_simp

section \<open>Code blocks and blockquotes in the two serializers\<close>

lemma copy_path_code_block:
  assumes "querySelector ''code'' (DElem ''pre'' attrs children) = Some codeEl"
  shows "dom_node parent (DElem ''pre'' attrs children) =
           fence @ language_of (className codeEl) @ ''\<newline>'' @ textContent codeEl
             @ ''\<newline>'' @ fence @ ''\<newline>\<newline>''"
proof -
  have "heading_level ''pre'' = None" by code_simp
  then show ?thesis using assms by (simp add: dom_pre_def)
qed

lemma save_path_code_block:
  assumes "querySelector ''code'' (DElem ''pre'' attrs children) = Some codeEl"
  shows "processNode parent (DElem ''pre'' attrs children) =
           fence @ language_of (className codeEl) @ ''\<newline>'' @ textContent codeEl
             @ fence @ ''\<newline>\<newline>''"
proof -
  have "heading_level ''pre'' = None" by code_simp
  then show ?thesis using assms by (simp add: html_pre_def)
qed

text \<open>
  C5.  For a \<open>pre\<close> element that holds \<open>code\<close> with the class \<open>language-js\<close> and the
  text \<open>x\<close>, the save path puts the closing delimiter right after the code text, with
  no newline between them; the copy path puts the newline there.
\<close>

theorem save_path_code_block_misses_newline:
  "processNode ''div'' (DElem ''pre'' [] [DElem ''code'' [(''class'', ''language-js'')] [DText ''x'']])
     = ''```js\<newline>x```\<newline>\<newline>'' \<and>
   dom_node ''div'' (DElem ''pre'' [] [DElem ''code'' [(''class'', ''language-js'')] [DText ''x'']])
     = ''```js\<newline>x\<newline>```\<newline>\<newline>''"
  by code_simp

lemma foldl_append_concat:
  "foldl (\<lambda>acc x. acc @ f x) acc xs = acc @ concat (map f xs)"
  by (induction xs arbitrary: acc) simp_all

lemma dom_blockquote_eq: "dom_blockquote inner = quote_lines inner"
  unfolding dom_blockquote_def quote_lines_def
  using foldl_append_concat[of "\<lambda>line. ''> '' @ line @ ''\<newline>''" "[]"] by simp

lemma join_lines_concat:
  "xs \<noteq> [] \<Longrightarrow>
   js_join ''\<newline>'' (map ((@) pre) xs) @ ''\<newline>'' = concat (map (\<lambda>l. pre @ l @ ''\<newline>'') xs)"
proof (induction xs)
  case Nil
  then show ?case by simp
next
  case (Cons x xs)
  show ?case
  proof (cases xs)
    case Nil
    then show ?thesis by simp
  next
    case (Cons y ys)
    then show ?thesis using Cons.IH by simp
  qed
qed

lemma html_blockquote_eq: "html_blockquote inner = quote_lines inner"
proof -
  have ne: "split_nl (js_trim inner) \<noteq> []" by (rule split_nl_nonempty)
  have "js_join ''\<newline>'' (map ((@) ''> '') (split_nl (js_trim inner))) @ ''\<newline>''
          = concat (map (\<lambda>l. ''> '' @ l @ ''\<newline>'') (split_nl (js_trim inner)))"
    using ne by (rule join_lines_concat)
  then show ?thesis unfolding html_blockquote_def quote_lines_def by simp
qed

lemma heading_level_blockquote: "heading_level ''blockquote'' = None"
  by code_simp

text \<open>
  C8 (as amended).  For every \<open>blockquote\<close> element both serializers give the
  Markdown of its children, trimmed and split on newlines, with every line (an empty
  line too) prefixed with \<open>> \<close> and ended by a newline, followed by one more newline.
\<close>

theorem blockquote_lines:
  "dom_node parent (DElem ''blockquote'' attrs children)
     = quote_lines (dom_children ''blockquote'' children) \<and>
   processNode parent (DElem ''blockquote'' attrs children)
     = quote_lines (process_children ''blockquote'' children)"
  by (simp add: heading_level_blockquote dom_blockquote_eq html_blockquote_eq)

theorem blockquote_lines_witness:
  "dom_node ''div'' (DElem ''blockquote'' [] [DElem ''p'' [] [DText ''a'']]) = ''> a\<newline>\<newline>'' \<and>
   processNode ''div'' (DElem ''blockquote'' [] [DElem ''p'' [] [DText ''a'']]) = ''> a\<newline>\<newline>''"
proof -
  have a: "quote_lines (dom_children ''blockquote'' [DElem ''p'' [] [DText ''a'']]) = ''> a\<newline>\<newline>''"
    by code_simp
  have b: "quote_lines (process_children ''blockquote'' [DElem ''p'' [] [DText ''a'']]) = ''> a\<newline>\<newline>''"
    by code_simp
  show ?thesis
    using blockquote_lines[of "''div''" "[]" "[DElem ''p'' [] [DText ''a'']]"]
    unfolding a b .
qed

text \<open>
  A blockquote of two paragraphs: the empty line between them is prefixed in both
  serializers, and the result differs from the rule in the words of the specification.
\<close>

theorem blockquote_empty_line_prefixed:
  "dom_node ''div'' (DElem ''blockquote'' [] [DElem ''p'' [] [DText ''a''], DElem ''p'' [] [DText ''b'']])
      = ''> a\<newline>> \<newline>> b\<newline>\<newline>'' \<and>
   processNode ''div'' (DElem ''blockquote'' [] [DElem ''p'' [] [DText ''a''], DElem ''p'' [] [DText ''b'']])
      = ''> a\<newline>> \<newline>> b\<newline>\<newline>'' \<and>
   blockquote_claimed (dom_children ''blockquote'' [DElem ''p'' [] [DText ''a''], DElem ''p'' [] [DText ''b'']])
      = ''> a\<newline>\<newline>> b\<newline>\<newline>\<newline>'' \<and>
   blockquote_claimed (process_children ''blockquote'' [DElem ''p'' [] [DText ''a''], DElem ''p'' [] [DText ''b'']])
      = ''> a\<newline>\<newline>> b\<newline>\<newline>\<newline>'' \<and>
   dom_node ''div'' (DElem ''blockquote'' [] [DElem ''p'' [] [DText ''a''], DElem ''p'' [] [DText ''b'']])
      \<noteq> blockquote_claimed (dom_children ''blockquote'' [DElem ''p'' [] [DText ''a''], DElem ''p'' [] [DText ''b'']]) \<and>
   processNode ''div'' (DElem ''blockquote'' [] [DElem ''p'' [] [DText ''a''], DElem ''p'' [] [DText ''b'']])
      \<noteq> blockquote_claimed (process_children ''blockquote'' [DElem ''p'' [] [DText ''a''], DElem ''p'' [] [DText ''b'']])"
  by code_simp

section \<open>The round trip through the copy path\<close>

subsection \<open>Trimming\<close>

lemma trim_eqI:
  assumes "s = w1 @ t @ w2"
      and "\<forall>c \<in> set w1. is_js_space c" and "\<forall>c \<in> set w2. is_js_space c"
      and "t = [] \<or> (\<not> is_js_space (hd t) \<and> \<not> is_js_space (last t))"
  shows "js_trim s = t"
proof (cases "t = []")
  case True
  then have "\<forall>c \<in> set s. is_js_space c" using assms by auto
  then have e: "dropWhile is_js_space s = []" by (metis dropWhile_eq_Nil_conv)
  show ?thesis unfolding js_trim_def e using True by simp
next
  case False
  then have h: "\<not> is_js_space (hd t)" and l: "\<not> is_js_space (last t)" using assms(4) by auto
  have "dropWhile is_js_space s = t @ w2"
    unfolding assms(1) using assms(2) h False
    by (simp add: dropWhile_append3 hd_append dropWhile_append2) (cases t; simp)
  then have "rev (dropWhile is_js_space s) = rev w2 @ rev t" by simp
  moreover have "dropWhile is_js_space (rev w2 @ rev t) = rev t"
  proof -
    have "dropWhile is_js_space (rev w2 @ rev t) = dropWhile is_js_space (rev t)"
      using assms(3) by (intro dropWhile_append2) simp
    moreover have "dropWhile is_js_space (rev t) = rev t"
      using l False by (cases "rev t") (auto simp: last_rev hd_rev)
    ultimately show ?thesis by simp
  qed
  ultimately show ?thesis by (simp add: js_trim_def)
qed

lemma dropWhile_ends: "dropWhile P s = [] \<or> \<not> P (hd (dropWhile P s))"
  by (metis hd_dropWhile)

lemma trim_decomp:
  "\<exists>w1 w2. s = w1 @ js_trim s @ w2 \<and> (\<forall>c \<in> set w1. is_js_space c) \<and>
     (\<forall>c \<in> set w2. is_js_space c) \<and>
     (js_trim s = [] \<or> (\<not> is_js_space (hd (js_trim s)) \<and> \<not> is_js_space (last (js_trim s))))"
proof -
  let ?P = is_js_space
  let ?u = "dropWhile ?P s"
  let ?w1 = "takeWhile ?P s"
  let ?r = "rev ?u"
  let ?w2 = "rev (takeWhile ?P ?r)"
  let ?t = "rev (dropWhile ?P ?r)"
  have t: "js_trim s = ?t" by (simp add: js_trim_def)
  have "?u = ?t @ ?w2"
    by (metis rev_append rev_rev_ident takeWhile_dropWhile_id)
  then have s: "s = ?w1 @ ?t @ ?w2" by (metis takeWhile_dropWhile_id)
  have w1: "\<forall>c \<in> set ?w1. ?P c" by (metis set_takeWhileD)
  have w2: "\<forall>c \<in> set ?w2. ?P c" by (metis set_rev set_takeWhileD)
  have ends: "?t = [] \<or> (\<not> ?P (hd ?t) \<and> \<not> ?P (last ?t))"
  proof (cases "?t = []")
    case True
    then show ?thesis by simp
  next
    case False
    then have ne: "dropWhile ?P ?r \<noteq> []" by simp
    then have "\<not> ?P (hd (dropWhile ?P ?r))" by (metis hd_dropWhile)
    then have l: "\<not> ?P (last ?t)" using ne by (simp add: last_rev)
    have "?t @ ?w2 \<noteq> []" using False by simp
    then have une: "?u \<noteq> []" using \<open>?u = ?t @ ?w2\<close> by metis
    then have hu: "\<not> ?P (hd ?u)" by (metis hd_dropWhile)
    have "hd ?u = hd ?t" using \<open>?u = ?t @ ?w2\<close> False by (metis hd_append2)
    then show ?thesis using hu l by simp
  qed
  show ?thesis unfolding t using s w1 w2 ends by blast
qed

lemma trim_all_space:
  assumes "\<forall>c \<in> set s. is_js_space c"
  shows "js_trim s = []"
proof -
  have e: "dropWhile is_js_space s = []" using assms by (metis dropWhile_eq_Nil_conv)
  show ?thesis unfolding js_trim_def e by simp
qed

lemma trim_append_space:
  assumes "\<forall>c \<in> set w. is_js_space c"
  shows "js_trim (s @ w) = js_trim s"
proof -
  obtain w1 w2 where d: "s = w1 @ js_trim s @ w2" "\<forall>c \<in> set w1. is_js_space c"
    "\<forall>c \<in> set w2. is_js_space c"
    "js_trim s = [] \<or> (\<not> is_js_space (hd (js_trim s)) \<and> \<not> is_js_space (last (js_trim s)))"
    using trim_decomp by blast
  have a: "s @ w = w1 @ js_trim s @ (w2 @ w)" using d(1) by (metis append.assoc)
  have b: "\<forall>c \<in> set (w2 @ w). is_js_space c" using d(3) assms by auto
  show ?thesis by (rule trim_eqI[OF a d(2) b d(4)])
qed

lemma trim_prepend_space:
  assumes "\<forall>c \<in> set w. is_js_space c"
  shows "js_trim (w @ s) = js_trim s"
proof -
  obtain w1 w2 where d: "s = w1 @ js_trim s @ w2" "\<forall>c \<in> set w1. is_js_space c"
    "\<forall>c \<in> set w2. is_js_space c"
    "js_trim s = [] \<or> (\<not> is_js_space (hd (js_trim s)) \<and> \<not> is_js_space (last (js_trim s)))"
    using trim_decomp by blast
  have a: "w @ s = (w @ w1) @ js_trim s @ w2" using d(1) by (metis append.assoc)
  have b: "\<forall>c \<in> set (w @ w1). is_js_space c" using d(2) assms by auto
  show ?thesis by (rule trim_eqI[OF a b d(3) d(4)])
qed

lemma trim_idem: "js_trim (js_trim s) = js_trim s"
proof -
  have d:
    "js_trim s = [] \<or> (\<not> is_js_space (hd (js_trim s)) \<and> \<not> is_js_space (last (js_trim s)))"
    using trim_decomp[of s] by blast
  have a: "js_trim s = [] @ js_trim s @ []" by simp
  show ?thesis by (rule trim_eqI[OF a _ _ d]) simp_all
qed

subsection \<open>Splitting a concatenation\<close>

lemma find_fence_Cons_other:
  assumes "a \<noteq> CHR ''`''"
  shows "find_fence (a # s) = map_option Suc (find_fence s)"
proof (cases s)
  case Nil
  then show ?thesis by simp
next
  case (Cons b s')
  then show ?thesis using assms by (cases s') simp_all
qed

lemma find_fence_prepend:
  assumes "\<forall>c \<in> set w. c \<noteq> CHR ''`''"
  shows "find_fence (w @ s) = map_option (\<lambda>k. k + length w) (find_fence s)"
  using assms
proof (induction w)
  case Nil
  show ?case by (simp add: option.map_ident)
next
  case (Cons a w)
  then have "find_fence (a # (w @ s)) = map_option Suc (find_fence (w @ s))"
    by (simp add: find_fence_Cons_other)
  then show ?case using Cons by (simp add: option.map_comp comp_def)
qed

lemma find_fence_append_left:
  "find_fence x = Some k \<Longrightarrow> find_fence (x @ z) = Some k"
proof (induction x arbitrary: k rule: find_fence.induct)
  case (1 a b c cs)
  show ?case
  proof (cases "a = CHR ''`'' \<and> b = CHR ''`'' \<and> c = CHR ''`''")
    case True
    then show ?thesis using 1(2) by simp
  next
    case False
    then obtain j where j: "find_fence (b # c # cs) = Some j" "k = Suc j"
      using 1(2) by auto
    then have "find_fence ((b # c # cs) @ z) = Some j" using 1(1) False by blast
    then show ?thesis using False j by simp
  qed
qed simp_all

lemma find_fence_at_boundary:
  "find_fence x = None \<Longrightarrow> no_tick_end x \<Longrightarrow> find_fence (x @ fence @ y) = Some (length x)"
proof (induction x rule: find_fence.induct)
  case (1 a b c cs)
  have nf: "\<not> (a = CHR ''`'' \<and> b = CHR ''`'' \<and> c = CHR ''`'')"
    using 1(2) by (auto split: if_splits)
  have n: "find_fence (b # c # cs) = None" using 1(2) nf by (auto split: if_splits)
  have e: "no_tick_end (b # c # cs)" using 1(3) by (simp add: no_tick_end_def)
  have "find_fence ((b # c # cs) @ fence @ y) = Some (length (b # c # cs))"
    using 1(1)[OF nf n e] .
  then show ?case using nf by simp
qed (simp_all add: fence_def no_tick_end_def)

lemma split_fence_append:
  "no_tick_end (last (split_fence x)) \<Longrightarrow>
   split_fence (x @ fence @ y) = split_fence x @ split_fence y"
proof (induction x rule: split_fence.induct)
  case (1 s)
  show ?case
  proof (cases "find_fence s")
    case None
    then have sp: "split_fence s = [s]" by (rule split_fence_None)
    then have "no_tick_end s" using 1(2) by simp
    then have f: "find_fence (s @ fence @ y) = Some (length s)"
      using None by (intro find_fence_at_boundary)
    show ?thesis
      unfolding split_fence_Some[OF f] sp by (simp add: fence_def)
  next
    case (Some k)
    have b: "k + 3 \<le> length s" using Some by (rule find_fence_bound)
    have sp: "split_fence s = take k s # split_fence (drop (k + 3) s)"
      using Some by (rule split_fence_Some)
    have ne: "split_fence (drop (k + 3) s) \<noteq> []" by (rule split_fence_nonempty)
    then have "last (split_fence s) = last (split_fence (drop (k + 3) s))"
      unfolding sp by simp
    then have "no_tick_end (last (split_fence (drop (k + 3) s)))" using 1(2) by simp
    then have ih: "split_fence (drop (k + 3) s @ fence @ y) =
                     split_fence (drop (k + 3) s) @ split_fence y"
      using 1(1)[OF Some] by simp
    have f: "find_fence (s @ fence @ y) = Some k"
      using Some by (rule find_fence_append_left)
    have "split_fence (s @ fence @ y) =
            take k (s @ fence @ y) # split_fence (drop (k + 3) (s @ fence @ y))"
      using f by (rule split_fence_Some)
    also have "take k (s @ fence @ y) = take k s" using b by simp
    also have "drop (k + 3) (s @ fence @ y) = drop (k + 3) s @ fence @ y" using b by simp
    finally show ?thesis unfolding ih sp by simp
  qed
qed

lemma space_not_tick: "is_js_space c \<Longrightarrow> c \<noteq> CHR ''`''"
  by (auto simp: is_js_space_def)

lemma map_nth_tl: "map (\<lambda>i. xs ! (i + 1)) [0..<length xs - 1] = tl xs"
  by (rule nth_equalityI) (simp_all add: nth_tl)

lemma extract_contents:
  assumes "extractMermaidBlocks md = Some blocks"
  shows "map content blocks = segment_contents md"
proof -
  let ?parts = "split_fence md"
  let ?g = "\<lambda>i. ?parts ! (i + 1)"
  let ?is = "filter (\<lambda>i. is_mermaid_part (?g i)) [0..<length ?parts - 1]"
  have b: "blocks = map (block_at md) ?is" using assms unfolding extract_eq by simp
  have c: "content (block_at md i) = mermaid_content (?g i)" for i
    unfolding block_at_def Let_def by simp
  have "map content blocks = map mermaid_content (map ?g ?is)"
    unfolding b by (simp add: c)
  also have "map ?g ?is = filter is_mermaid_part (map ?g [0..<length ?parts - 1])"
    by (simp add: filter_map comp_def)
  also have "map ?g [0..<length ?parts - 1] = tl ?parts" by (rule map_nth_tl)
  finally show ?thesis unfolding segment_contents_def .
qed

lemma split_fence_prepend:
  assumes "\<forall>c \<in> set w. c \<noteq> CHR ''`''"
  shows "tl (split_fence (w @ s)) = tl (split_fence s)"
proof (cases "find_fence s")
  case None
  then have "find_fence (w @ s) = None" using assms by (simp add: find_fence_prepend)
  then show ?thesis using None by (simp add: split_fence_None)
next
  case (Some k)
  then have f: "find_fence (w @ s) = Some (k + length w)"
    using assms by (simp add: find_fence_prepend)
  have "drop (k + length w + 3) (w @ s) = drop (k + 3) s" by simp
  then show ?thesis
    unfolding split_fence_Some[OF f] split_fence_Some[OF Some] by simp
qed

lemma tick_free_find: "\<forall>c \<in> set w. c \<noteq> CHR ''`'' \<Longrightarrow> find_fence w = None"
  using find_fence_prepend[of w "[]"] by simp

lemma find_fence_one_then_free:
  assumes "\<forall>c \<in> set w. c \<noteq> CHR ''`''"
  shows "find_fence (a # w) = None"
proof (cases w)
  case Nil
  then show ?thesis by simp
next
  case (Cons c w')
  then have "c \<noteq> CHR ''`''" using assms by simp
  moreover have "find_fence w = None" using assms by (rule tick_free_find)
  ultimately show ?thesis using Cons by (cases w') simp_all
qed

lemma find_fence_two_then_free:
  assumes "\<forall>c \<in> set w. c \<noteq> CHR ''`''"
  shows "find_fence (a # b # w) = None"
proof (cases w)
  case Nil
  then show ?thesis by simp
next
  case (Cons c w')
  then have "c \<noteq> CHR ''`''" using assms by simp
  moreover have "find_fence (b # w) = None" using assms by (rule find_fence_one_then_free)
  ultimately show ?thesis using Cons by simp
qed

lemma find_fence_append_other:
  assumes "\<forall>c \<in> set w. c \<noteq> CHR ''`''"
  shows "find_fence (x @ w) = find_fence x"
proof (induction x rule: find_fence.induct)
  case (1 a b c cs)
  then show ?case by simp
qed (simp_all add: tick_free_find find_fence_one_then_free find_fence_two_then_free assms)

lemma split_fence_append_other:
  assumes "\<forall>c \<in> set w. c \<noteq> CHR ''`''"
  shows "split_fence (x @ w) = butlast (split_fence x) @ [last (split_fence x) @ w]"
proof (induction x rule: split_fence.induct)
  case (1 s)
  show ?case
  proof (cases "find_fence s")
    case None
    then have "find_fence (s @ w) = None" using assms by (simp add: find_fence_append_other)
    then show ?thesis using None by (simp add: split_fence_None)
  next
    case (Some k)
    have b: "k + 3 \<le> length s" using Some by (rule find_fence_bound)
    have f: "find_fence (s @ w) = Some k" using Some assms by (simp add: find_fence_append_other)
    have ne: "split_fence (drop (k + 3) s) \<noteq> []" by (rule split_fence_nonempty)
    have ih: "split_fence (drop (k + 3) s @ w) =
                butlast (split_fence (drop (k + 3) s)) @ [last (split_fence (drop (k + 3) s)) @ w]"
      using 1[OF Some] .
    show ?thesis
      unfolding split_fence_Some[OF f] split_fence_Some[OF Some]
      using b ne ih by simp
  qed
qed

lemma is_mermaid_part_append_space:
  assumes "\<forall>c \<in> set w. is_js_space c"
  shows "is_mermaid_part (p @ w) = is_mermaid_part p"
  unfolding is_mermaid_part_def first_line_eq using assms by (simp add: trim_append_space)

lemma mermaid_content_append_space:
  assumes "\<forall>c \<in> set w. is_js_space c"
  shows "mermaid_content (p @ w) = mermaid_content p"
proof (cases "CHR 0x0A \<in> set p")
  case True
  then have ne: "dropWhile (\<lambda>c. c \<noteq> CHR 0x0A) p \<noteq> []" by simp
  have "dropWhile (\<lambda>c. c \<noteq> CHR 0x0A) (p @ w) = dropWhile (\<lambda>c. c \<noteq> CHR 0x0A) p @ w"
    using True by (simp add: dropWhile_append1)
  then have "tl (dropWhile (\<lambda>c. c \<noteq> CHR 0x0A) (p @ w)) = tl (dropWhile (\<lambda>c. c \<noteq> CHR 0x0A) p) @ w"
    using ne by simp
  then show ?thesis unfolding mermaid_content_eq using assms by (simp add: trim_append_space)
next
  case False
  then have e: "dropWhile (\<lambda>c. c \<noteq> CHR 0x0A) p = []" by (induction p) auto
  have "dropWhile (\<lambda>c. c \<noteq> CHR 0x0A) (p @ w) = dropWhile (\<lambda>c. c \<noteq> CHR 0x0A) w"
    using False by (intro dropWhile_append2) auto
  moreover have "\<forall>c \<in> set (tl (dropWhile (\<lambda>c. c \<noteq> CHR 0x0A) w)). is_js_space c"
    using assms by (metis list.set_sel(2) set_dropWhileD tl_Nil empty_iff empty_set)
  ultimately have "js_trim (tl (dropWhile (\<lambda>c. c \<noteq> CHR 0x0A) (p @ w))) = []"
    by (simp add: trim_all_space)
  moreover have "js_trim (tl (dropWhile (\<lambda>c. c \<noteq> CHR 0x0A) p)) = []"
    unfolding e by (simp add: js_trim_def)
  ultimately show ?thesis unfolding mermaid_content_eq by simp
qed

lemma segment_contents_append_space:
  assumes "\<forall>c \<in> set w. is_js_space c"
  shows "segment_contents (x @ w) = segment_contents x"
proof -
  have nt: "\<forall>c \<in> set w. c \<noteq> CHR ''`''" using assms space_not_tick by blast
  let ?ps = "split_fence x"
  have sp: "split_fence (x @ w) = butlast ?ps @ [last ?ps @ w]"
    using nt by (rule split_fence_append_other)
  have ne: "?ps \<noteq> []" by (rule split_fence_nonempty)
  show ?thesis
  proof (cases "tl ?ps = []")
    case True
    then have "butlast ?ps = []" using ne by (cases ?ps) simp_all
    then show ?thesis unfolding segment_contents_def sp using True by simp
  next
    case False
    then have bl: "butlast ?ps \<noteq> []" using ne by (cases ?ps) auto
    have t1: "tl (butlast ?ps @ [last ?ps @ w]) = butlast (tl ?ps) @ [last (tl ?ps) @ w]"
      using bl False ne by (cases ?ps) (simp_all add: butlast_tl)
    have t2: "tl ?ps = butlast (tl ?ps) @ [last (tl ?ps)]" using False by simp
    have "map mermaid_content (filter is_mermaid_part (butlast (tl ?ps) @ [last (tl ?ps) @ w]))
        = map mermaid_content (filter is_mermaid_part (butlast (tl ?ps) @ [last (tl ?ps)]))"
      using assms by (simp add: is_mermaid_part_append_space mermaid_content_append_space)
    then show ?thesis unfolding segment_contents_def sp t1 using t2 by simp
  qed
qed

lemma segment_contents_prepend_space:
  assumes "\<forall>c \<in> set w. is_js_space c"
  shows "segment_contents (w @ x) = segment_contents x"
proof -
  have nt: "\<forall>c \<in> set w. c \<noteq> CHR ''`''" using assms space_not_tick by blast
  show ?thesis unfolding segment_contents_def split_fence_prepend[OF nt] ..
qed

lemma segment_contents_trim: "segment_contents (js_trim s) = segment_contents s"
proof -
  obtain w1 w2 where d: "s = w1 @ js_trim s @ w2" "\<forall>c \<in> set w1. is_js_space c"
    "\<forall>c \<in> set w2. is_js_space c"
    using trim_decomp by blast
  have "segment_contents s = segment_contents (w1 @ (js_trim s @ w2))" using d(1) by simp
  also have "\<dots> = segment_contents (js_trim s @ w2)"
    using d(2) by (rule segment_contents_prepend_space)
  also have "\<dots> = segment_contents (js_trim s)"
    using d(3) by (rule segment_contents_append_space)
  finally show ?thesis by simp
qed

subsection \<open>The Markdown of a diagram block\<close>

lemma dom_children_concat: "dom_children parent ns = concat (map (dom_node parent) ns)"
  by (induction ns) simp_all

lemma textContent_render_content: "textContent (render_content n) = node_text n"
  by (cases n) simp_all

lemma language_of_mermaid: "language_of ''language-mermaid'' = ''mermaid''"
  by code_simp

lemma heading_level_div: "heading_level ''div'' = None"
  by code_simp

lemma heading_level_pre: "heading_level ''pre'' = None"
  by code_simp

lemma div_passes_child:
  "dom_node parent (DElem ''div'' attrs [node]) = dom_node ''div'' node"
  by (simp add: heading_level_div)

lemma mermaid_node_md:
  "dom_node ''div'' (serialize_node render (PMNode ''mermaidBlock'' attrs children)) =
     diagram_md (concat (map node_text children))"
proof -
  let ?code = "DElem ''code'' [(''class'', ''language-mermaid'')] (map render_content children)"
  let ?pre = "DElem ''pre'' [(''class'', ''mermaid-source'')] [?code]"
  have q: "querySelector ''code'' ?pre = Some ?code"
    by (simp add: querySelector_def descendants_def)
  have c: "className ?code = ''language-mermaid''" by (simp add: className_def)
  have t: "textContent ?code = concat (map node_text children)"
    by (simp add: comp_def textContent_render_content)
  have "dom_node ''div'' ?pre =
          fence @ language_of (className ?code) @ ''\<newline>'' @ textContent ?code
            @ ''\<newline>'' @ fence @ ''\<newline>\<newline>''"
    using q by (rule copy_path_code_block)
  then have p: "dom_node ''div'' ?pre = diagram_md (concat (map node_text children))"
    unfolding c t language_of_mermaid diagram_md_def .
  have r: "serialize_node render (PMNode ''mermaidBlock'' attrs children) = renderHTML attrs children"
    by simp
  show ?thesis unfolding r renderHTML_def div_passes_child p ..
qed

lemma trimmed_ends:
  assumes "js_trim c = c"
  shows "c = [] \<or> (\<not> is_js_space (hd c) \<and> \<not> is_js_space (last c))"
  using trim_decomp[of c] unfolding assms by blast

lemma nl_space: "is_js_space (CHR 0x0A)"
  by (simp add: is_js_space_def)

lemma tag_span_free:
  assumes "find_fence c = None"
  shows "find_fence (tag_span c) = None"
proof -
  have "find_fence (c @ ''\<newline>'') = None"
    using assms by (simp add: find_fence_append_other)
  then have "find_fence (''mermaid\<newline>'' @ (c @ ''\<newline>'')) = None"
    by (subst find_fence_prepend) simp_all
  then show ?thesis by (simp add: tag_span_def)
qed

lemma tag_span_content:
  assumes "js_trim c = c"
  shows "mermaid_content (tag_span c) = c"
proof -
  have "tl (dropWhile (\<lambda>x. x \<noteq> CHR 0x0A) (tag_span c)) = c @ ''\<newline>''"
    by (simp add: tag_span_def)
  then have "mermaid_content (tag_span c) = js_trim (c @ ''\<newline>'')"
    unfolding mermaid_content_eq by simp
  also have "\<dots> = js_trim c" by (rule trim_append_space) (simp add: nl_space)
  finally show ?thesis using assms by simp
qed

lemma trim_mermaid: "js_trim ''mermaid'' = ''mermaid''"
  by code_simp

lemma m_not_space: "\<not> is_js_space (CHR ''m'')"
  by code_simp

lemma d_not_space: "\<not> is_js_space (CHR ''d'')"
  by code_simp

lemma tag_span_is_mermaid:
  assumes "js_trim c = c"
  shows "is_mermaid_part (tag_span c)"
proof -
  have "takeWhile (\<lambda>x. x \<noteq> CHR 0x0A) (js_trim (tag_span c)) = ''mermaid''"
  proof (cases "c = []")
    case True
    have a: "tag_span c = [] @ ''mermaid'' @ ''\<newline>\<newline>''" using True by (simp add: tag_span_def)
    have "js_trim (tag_span c) = ''mermaid''"
      by (rule trim_eqI[OF a]) (simp_all add: nl_space m_not_space d_not_space)
    then show ?thesis by simp
  next
    case False
    then have e: "\<not> is_js_space (last c)" using trimmed_ends[OF assms] by blast
    have a: "tag_span c = [] @ (''mermaid\<newline>'' @ c) @ ''\<newline>''" by (simp add: tag_span_def)
    have "js_trim (tag_span c) = ''mermaid\<newline>'' @ c"
      by (rule trim_eqI[OF a]) (use False e in \<open>simp_all add: nl_space m_not_space\<close>)
    then show ?thesis by simp
  qed
  then show ?thesis unfolding is_mermaid_part_def first_line_eq by (simp add: trim_mermaid)
qed

lemma split_after_gap:
  assumes "no_tick_end (last (split_fence gap))" and "find_fence c = None"
  shows "split_fence (gap @ diagram_md c @ rest) =
           split_fence gap @ [tag_span c] @ split_fence (''\<newline>\<newline>'' @ rest)"
proof -
  have f: "find_fence (tag_span c) = None" using assms(2) by (rule tag_span_free)
  then have sp: "split_fence (tag_span c) = [tag_span c]" by (rule split_fence_None)
  have "no_tick_end (tag_span c)" by (simp add: no_tick_end_def tag_span_def)
  then have e: "no_tick_end (last (split_fence (tag_span c)))" unfolding sp by simp
  have "gap @ diagram_md c @ rest = gap @ fence @ (tag_span c @ fence @ (''\<newline>\<newline>'' @ rest))"
    by (simp add: diagram_md_def tag_span_def)
  then show ?thesis
    unfolding split_fence_append[OF assms(1)] split_fence_append[OF e] sp
    by (simp add: split_fence_append[OF assms(1)] split_fence_append[OF e] sp)
qed

lemma contents_of_serialized:
  assumes "\<forall>n \<in> set nodes. is_mermaid_node n \<longrightarrow> good_text (diagram_text n)"
      and "others_quiet render leading gap nodes"
  shows "(if leading then segment_contents else span_contents)
           (gap @ dom_children ''div'' (map (serialize_node render) nodes))
         = map diagram_text (filter is_mermaid_node nodes)"
  using assms
proof (induction nodes arbitrary: leading gap)
  case Nil
  then show ?case
    by (simp add: gap_quiet_def segment_contents_def span_contents_def split: if_splits)
next
  case (Cons n ns)
  let ?rest = "dom_children ''div'' (map (serialize_node render) ns)"
  have good: "\<forall>n \<in> set ns. is_mermaid_node n \<longrightarrow> good_text (diagram_text n)"
    using Cons.prems(1) by simp
  show ?case
  proof (cases "is_mermaid_node n")
    case False
    then have q: "others_quiet render leading (gap @ dom_node ''div'' (serialize_node render n)) ns"
      using Cons.prems(2) by simp
    show ?thesis using Cons.IH[OF good q] False by simp
  next
    case True
    then obtain type attrs children where n: "n = PMNode type attrs children" "type = ''mermaidBlock''"
      by (cases n) simp_all
    let ?c = "diagram_text n"
    have gt: "good_text ?c" using Cons.prems(1) True by simp
    then have free: "find_fence ?c = None" and trimmed: "js_trim ?c = ?c"
      by (simp_all add: good_text_def)
    have gq: "gap_quiet leading gap" and nt: "no_tick_end (last (split_fence gap))"
      and q: "others_quiet render False ''\<newline>\<newline>'' ns"
      using Cons.prems(2) True by simp_all
    have md: "dom_node ''div'' (serialize_node render n) = diagram_md ?c"
      unfolding n using mermaid_node_md[of render attrs children] by simp
    have s: "gap @ dom_children ''div'' (map (serialize_node render) (n # ns))
               = gap @ diagram_md ?c @ ?rest"
      by (simp add: md)
    have sp: "split_fence (gap @ diagram_md ?c @ ?rest) =
                split_fence gap @ [tag_span ?c] @ split_fence (''\<newline>\<newline>'' @ ?rest)"
      using nt free by (rule split_after_gap)
    have ih: "span_contents (''\<newline>\<newline>'' @ ?rest) = map diagram_text (filter is_mermaid_node ns)"
      using Cons.IH[OF good q] by simp
    have m: "is_mermaid_part (tag_span ?c)" using trimmed by (rule tag_span_is_mermaid)
    have c: "mermaid_content (tag_span ?c) = ?c" using trimmed by (rule tag_span_content)
    have ne: "split_fence gap \<noteq> []" by (rule split_fence_nonempty)
    show ?thesis
    proof (cases leading)
      case True
      have g: "filter is_mermaid_part (tl (split_fence gap)) = []"
        using gq True by (simp add: gap_quiet_def)
      have "segment_contents (gap @ diagram_md ?c @ ?rest) = ?c # span_contents (''\<newline>\<newline>'' @ ?rest)"
        unfolding segment_contents_def span_contents_def sp using ne g m c by simp
      then show ?thesis unfolding s ih using True \<open>is_mermaid_node n\<close> by simp
    next
      case False
      have g: "filter is_mermaid_part (split_fence gap) = []"
        using gq False by (simp add: gap_quiet_def)
      have "span_contents (gap @ diagram_md ?c @ ?rest) = ?c # span_contents (''\<newline>\<newline>'' @ ?rest)"
        unfolding span_contents_def sp using g m c by simp
      then show ?thesis unfolding s ih using False \<open>is_mermaid_node n\<close> by simp
    qed
  qed
qed

subsection \<open>The diagram nodes of a conversion\<close>

lemma mermaidNode_Some:
  assumes "mermaidNode b = Some n"
  shows "is_mermaid_node n" and "diagram_text n = content b"
  using assms unfolding mermaidNode_def schema_text_def
  by (auto split: if_splits)

lemma not_mermaid_paraNode: "\<not> is_mermaid_node paraNode"
  by (simp add: paraNode_def)

lemma convert_loop_count:
  "convert_loop marked parseSlice md bs (acc, li) = Some (res, li') \<Longrightarrow>
   length (filter is_mermaid_node acc) + length bs \<le> length (filter is_mermaid_node res) \<and>
   (length (filter is_mermaid_node res) = length (filter is_mermaid_node acc) + length bs \<longrightarrow>
      map diagram_text (filter is_mermaid_node res) =
        map diagram_text (filter is_mermaid_node acc) @ map content bs)"
proof (induction bs arbitrary: acc li)
  case Nil
  then show ?case by simp
next
  case (Cons b bs)
  from Cons.prems obtain beforeNodes diagramNode where
    bn: "before_nodes marked parseSlice md li b = Some beforeNodes" and
    dn: "mermaidNode b = Some diagramNode" and
    rec: "convert_loop marked parseSlice md bs
            (acc @ beforeNodes @ [diagramNode] @
               (if bs \<noteq> [] \<or> endIndex b < length md then [paraNode] else []),
             endIndex b) = Some (res, li')"
    by (auto split: option.splits)
  let ?acc' = "acc @ beforeNodes @ [diagramNode] @
               (if bs \<noteq> [] \<or> endIndex b < length md then [paraNode] else [])"
  have m: "is_mermaid_node diagramNode" and t: "diagram_text diagramNode = content b"
    using mermaidNode_Some[OF dn] by simp_all
  have f: "filter is_mermaid_node ?acc' =
             filter is_mermaid_node acc @ filter is_mermaid_node beforeNodes @ [diagramNode]"
    using m by (simp add: not_mermaid_paraNode)
  have ih: "length (filter is_mermaid_node ?acc') + length bs \<le> length (filter is_mermaid_node res)"
    and ih2: "length (filter is_mermaid_node res) = length (filter is_mermaid_node ?acc') + length bs \<Longrightarrow>
      map diagram_text (filter is_mermaid_node res) =
        map diagram_text (filter is_mermaid_node ?acc') @ map content bs"
    using Cons.IH[OF rec] by simp_all
  have le: "length (filter is_mermaid_node acc) + length (b # bs) \<le> length (filter is_mermaid_node res)"
    using ih unfolding f by simp
  have eq: "map diagram_text (filter is_mermaid_node res) =
        map diagram_text (filter is_mermaid_node acc) @ map content (b # bs)"
    if e: "length (filter is_mermaid_node res) = length (filter is_mermaid_node acc) + length (b # bs)"
  proof -
    have "length (filter is_mermaid_node beforeNodes) = 0"
      using ih e unfolding f by simp
    then have nb: "filter is_mermaid_node beforeNodes = []" by simp
    have "length (filter is_mermaid_node res) = length (filter is_mermaid_node ?acc') + length bs"
      using e unfolding f nb by simp
    from ih2[OF this] show ?thesis unfolding f nb by (simp add: t)
  qed
  show ?case using le eq by blast
qed

lemma convert_diagram_texts:
  assumes "extractMermaidBlocks md = Some blocks"
      and "convertMarkdownToTipTapNodes marked parseSlice md = Some nodes"
      and "length (filter is_mermaid_node nodes) = length blocks"
  shows "map diagram_text (filter is_mermaid_node nodes) = map content blocks"
proof (cases "blocks = []")
  case True
  then show ?thesis using assms(3) by simp
next
  case False
  then obtain contentNodes lastIndex afterNodes where
    lp: "convert_loop marked parseSlice md blocks ([], 0) = Some (contentNodes, lastIndex)" and
    n: "nodes = contentNodes @ afterNodes"
    using assms(1,2) unfolding convertMarkdownToTipTapNodes_def
    by (auto split: option.splits)
  have le: "length blocks \<le> length (filter is_mermaid_node contentNodes)"
    and eq: "length (filter is_mermaid_node contentNodes) = length blocks \<Longrightarrow>
      map diagram_text (filter is_mermaid_node contentNodes) = map content blocks"
    using convert_loop_count[OF lp] by simp_all
  have l: "length (filter is_mermaid_node contentNodes) + length (filter is_mermaid_node afterNodes)
             = length blocks"
    using assms(3) unfolding n by simp
  have "length (filter is_mermaid_node afterNodes) = 0" using l le by arith
  then have na: "filter is_mermaid_node afterNodes = []" by simp
  have "length (filter is_mermaid_node contentNodes) = length blocks" using l le by arith
  from eq[OF this] show ?thesis unfolding n using na by simp
qed

lemma block_content_good:
  assumes "extractMermaidBlocks md = Some blocks" and "b \<in> set blocks"
  shows "good_text (content b)"
proof -
  let ?parts = "split_fence md"
  let ?is = "filter (\<lambda>i. is_mermaid_part (?parts ! (i + 1))) [0..<length ?parts - 1]"
  have "blocks = map (block_at md) ?is" using assms(1) unfolding extract_eq by simp
  then obtain i where i: "i < length ?parts - 1" and b: "b = block_at md i"
    using assms(2) by auto
  then have "?parts ! (i + 1) \<in> set ?parts" by simp
  then have "find_fence (?parts ! (i + 1)) = None" by (rule split_fence_parts_free)
  then have f: "find_fence (mermaid_content (?parts ! (i + 1))) = None"
    by (rule mermaid_content_free)
  have c: "content b = mermaid_content (?parts ! (i + 1))"
    unfolding b block_at_def Let_def by simp
  have "js_trim (content b) = content b"
    unfolding c mermaid_content_eq by (rule trim_idem)
  then show ?thesis using f unfolding good_text_def c by simp
qed

text \<open>A segment with empty content makes the conversion throw, whatever the converter does.\<close>

lemma empty_diagram_throws:
  "convertMarkdownToTipTapNodes marked parseSlice ''```mermaid\<newline>```'' = None"
  by code_simp

text \<open>
  C1 (as amended).  Let the conversion of a text return a node list (it throws on a
  segment with empty content), let the node list hold as many \<open>mermaidBlock\<close> nodes as
  the scanner found segments (the external converter added none of its own), and let the
  Markdown that the copy path emits for the nodes between the diagram blocks hold no span
  that the scanner takes for a diagram and not end in a backtick where a diagram block
  follows.  Then scanning the Markdown of the copy path (diagram blocks rendered by
  \<open>renderHTML\<close>, the fragment serialized by \<open>domToMarkdown\<close> and trimmed) finds as many
  segments as scanning the text, with the same contents in the same order; and every
  diagram block is emitted as three backticks, \<open>mermaid\<close>, a newline, its source text, a
  newline, three backticks and a blank line.
\<close>

theorem copy_roundtrip:
  assumes "convertMarkdownToTipTapNodes marked parseSlice md = Some nodes"
      and "extractMermaidBlocks md = Some blocks"
      and "length (filter is_mermaid_node nodes) = length blocks"
      and "others_quiet render True [] nodes"
  shows "\<exists>blocks'.
           extractMermaidBlocks (copy_markdown render nodes) = Some blocks' \<and>
           length blocks' = length blocks \<and>
           map content blocks' = map content blocks \<and>
           (\<forall>n \<in> set nodes. is_mermaid_node n \<longrightarrow>
              dom_node ''div'' (serialize_node render n) = diagram_md (diagram_text n))"
proof -
  obtain blocks' where ex': "extractMermaidBlocks (copy_markdown render nodes) = Some blocks'"
    unfolding extract_eq by blast
  have d: "map diagram_text (filter is_mermaid_node nodes) = map content blocks"
    using assms(2,1,3) by (rule convert_diagram_texts)
  have good: "\<forall>n \<in> set nodes. is_mermaid_node n \<longrightarrow> good_text (diagram_text n)"
  proof (intro ballI impI)
    fix n assume "n \<in> set nodes" "is_mermaid_node n"
    then have "diagram_text n \<in> set (map diagram_text (filter is_mermaid_node nodes))" by simp
    then obtain b where b: "b \<in> set blocks" "diagram_text n = content b" unfolding d by auto
    show "good_text (diagram_text n)"
      unfolding b(2) using assms(2) b(1) by (rule block_content_good)
  qed
  have "map content blocks' = segment_contents (copy_markdown render nodes)"
    using ex' by (rule extract_contents)
  also have "\<dots> = segment_contents (dom_children ''div'' (map (serialize_node render) nodes))"
    unfolding copy_markdown_def domToMarkdown_def by (simp add: segment_contents_trim)
  also have "\<dots> = map diagram_text (filter is_mermaid_node nodes)"
    using contents_of_serialized[OF good assms(4)] by simp
  also have "\<dots> = map content blocks" by (rule d)
  finally have eq: "map content blocks' = map content blocks" .
  then have len: "length blocks' = length blocks" by (rule map_eq_imp_length_eq)
  have emit: "\<forall>n \<in> set nodes. is_mermaid_node n \<longrightarrow>
              dom_node ''div'' (serialize_node render n) = diagram_md (diagram_text n)"
  proof (intro ballI impI)
    fix n assume "n \<in> set nodes" and m: "is_mermaid_node n"
    from m obtain type attrs children where "n = PMNode type attrs children" "type = ''mermaidBlock''"
      by (cases n) simp_all
    then show "dom_node ''div'' (serialize_node render n) = diagram_md (diagram_text n)"
      using mermaid_node_md[of render attrs children] by simp
  qed
  show ?thesis using ex' len eq emit by blast
qed

theorem copy_roundtrip_witness:
  "convertMarkdownToTipTapNodes
     (\<lambda>s. if s = ''Hello\<newline>\<newline>'' then Some ''<p>Hello</p>\<newline>''
          else if s = ''\<newline>\<newline>World'' then Some ''<p>World</p>\<newline>'' else None)
     (\<lambda>html. if html = ''<p>Hello</p>\<newline>'' then Some [PMNode ''paragraph'' [] [PMText ''Hello'']]
          else if html = ''<p>World</p>\<newline>'' then Some [PMNode ''paragraph'' [] [PMText ''World'']]
          else None)
     ''Hello\<newline>\<newline>```mermaid\<newline>flowchart TD\<newline>A-->B\<newline>```\<newline>\<newline>World''
   = Some [PMNode ''paragraph'' [] [PMText ''Hello''],
           PMNode ''mermaidBlock''
             [(''diagramType'', ''flowchart''), (''viewMode'', ''preview''), (''theme'', ''default'')]
             [PMText ''flowchart TD\<newline>A-->B''],
           PMNode ''paragraph'' [] [],
           PMNode ''paragraph'' [] [PMText ''World'']] \<and>
   extractMermaidBlocks ''Hello\<newline>\<newline>```mermaid\<newline>flowchart TD\<newline>A-->B\<newline>```\<newline>\<newline>World''
   = Some [\<lparr>content = ''flowchart TD\<newline>A-->B'', startIndex = Some 7, endIndex = 40,
             diagramType = ''flowchart''\<rparr>] \<and>
   copy_markdown
     (\<lambda>n. case n of PMNode type attrs children \<Rightarrow> DElem ''p'' [] (map render_content children)
                | PMText s \<Rightarrow> DText s)
     [PMNode ''paragraph'' [] [PMText ''Hello''],
      PMNode ''mermaidBlock''
        [(''diagramType'', ''flowchart''), (''viewMode'', ''preview''), (''theme'', ''default'')]
        [PMText ''flowchart TD\<newline>A-->B''],
      PMNode ''paragraph'' [] [],
      PMNode ''paragraph'' [] [PMText ''World'']]
   = ''Hello\<newline>\<newline>```mermaid\<newline>flowchart TD\<newline>A-->B\<newline>```\<newline>\<newline>World'' \<and>
   (\<exists>blocks'.
      extractMermaidBlocks
        (copy_markdown
          (\<lambda>n. case n of PMNode type attrs children \<Rightarrow> DElem ''p'' [] (map render_content children)
                     | PMText s \<Rightarrow> DText s)
          [PMNode ''paragraph'' [] [PMText ''Hello''],
           PMNode ''mermaidBlock''
             [(''diagramType'', ''flowchart''), (''viewMode'', ''preview''), (''theme'', ''default'')]
             [PMText ''flowchart TD\<newline>A-->B''],
           PMNode ''paragraph'' [] [],
           PMNode ''paragraph'' [] [PMText ''World'']])
        = Some blocks' \<and>
      length blocks' = 1 \<and> map content blocks' = [''flowchart TD\<newline>A-->B''])"
proof -
  let ?marked = "\<lambda>s. if s = ''Hello\<newline>\<newline>'' then Some ''<p>Hello</p>\<newline>''
          else if s = ''\<newline>\<newline>World'' then Some ''<p>World</p>\<newline>'' else None"
  let ?parse = "\<lambda>html. if html = ''<p>Hello</p>\<newline>'' then Some [PMNode ''paragraph'' [] [PMText ''Hello'']]
          else if html = ''<p>World</p>\<newline>'' then Some [PMNode ''paragraph'' [] [PMText ''World'']]
          else None"
  let ?render = "\<lambda>n. case n of PMNode type attrs children \<Rightarrow> DElem ''p'' [] (map render_content children)
                | PMText s \<Rightarrow> DText s"
  let ?md = "''Hello\<newline>\<newline>```mermaid\<newline>flowchart TD\<newline>A-->B\<newline>```\<newline>\<newline>World''"
  let ?nodes = "[PMNode ''paragraph'' [] [PMText ''Hello''],
           PMNode ''mermaidBlock''
             [(''diagramType'', ''flowchart''), (''viewMode'', ''preview''), (''theme'', ''default'')]
             [PMText ''flowchart TD\<newline>A-->B''],
           PMNode ''paragraph'' [] [],
           PMNode ''paragraph'' [] [PMText ''World'']]"
  let ?blocks = "[\<lparr>content = ''flowchart TD\<newline>A-->B'', startIndex = Some 7, endIndex = 40,
             diagramType = ''flowchart''\<rparr>]"
  have conv: "convertMarkdownToTipTapNodes ?marked ?parse ?md = Some ?nodes" by code_simp
  have ex: "extractMermaidBlocks ?md = Some ?blocks" by code_simp
  have cnt: "length (filter is_mermaid_node ?nodes) = length ?blocks" by simp
  have quiet: "others_quiet ?render True [] ?nodes" by code_simp
  have cm: "copy_markdown ?render ?nodes = ?md" by code_simp
  have lb: "length ?blocks = 1" by simp
  have cb: "map content ?blocks = [''flowchart TD\<newline>A-->B'']" by simp
  from copy_roundtrip[OF conv ex cnt quiet] obtain blocks' where
    b: "extractMermaidBlocks (copy_markdown ?render ?nodes) = Some blocks'"
    "length blocks' = length ?blocks" "map content blocks' = map content ?blocks"
    by (elim exE conjE)
  have r: "\<exists>blocks'. extractMermaidBlocks (copy_markdown ?render ?nodes) = Some blocks' \<and>
      length blocks' = 1 \<and> map content blocks' = [''flowchart TD\<newline>A-->B'']"
    using b unfolding lb cb by (intro exI[of _ blocks'] conjI)
  show ?thesis by (intro conjI conv ex cm r)
qed

text \<open>
  Two texts with one segment each, for which the scanner finds two segments after the
  round trip.  In the first a code fence has the info string \<open>mermaid x\<close>, which is no
  diagram for the scanner; the external converter is taken at this input as \<open>marked\<close>
  and the editor's code-block extension behave (the language is the first word of the
  info string, the node is rendered as \<open>pre\<close> with \<open>code\<close> of the class
  \<open>language-mermaid\<close>), and the copy path emits a \<open>mermaid\<close> fence for the code block.
  In the second the text holds the HTML element that \<open>MermaidBlock.parseHTML\<close> turns
  into a \<open>mermaidBlock\<close> node, a \<open>div\<close> whose \<open>data-type\<close> is \<open>mermaid-block\<close>;
  \<open>marked\<close> passes HTML through, so that the node list holds a diagram block that no
  segment stands for.
\<close>

theorem copy_roundtrip_counterexample:
  "extractMermaidBlocks ''```mermaid x\<newline>B\<newline>```\<newline>```mermaid\<newline>A\<newline>```''
     = Some [\<lparr>content = ''A'', startIndex = Some 19, endIndex = 35, diagramType = ''flowchart''\<rparr>] \<and>
   convertMarkdownToTipTapNodes
     (\<lambda>s. if s = ''```mermaid x\<newline>B\<newline>```\<newline>''
          then Some ''<pre><code class=language-mermaid>B\<newline></code></pre>'' else None)
     (\<lambda>html. if html = ''<pre><code class=language-mermaid>B\<newline></code></pre>''
          then Some [PMNode ''codeBlock'' [(''language'', ''mermaid'')] [PMText ''B\<newline>'']] else None)
     ''```mermaid x\<newline>B\<newline>```\<newline>```mermaid\<newline>A\<newline>```''
     = Some [PMNode ''codeBlock'' [(''language'', ''mermaid'')] [PMText ''B\<newline>''],
             PMNode ''mermaidBlock''
               [(''diagramType'', ''flowchart''), (''viewMode'', ''preview''), (''theme'', ''default'')]
               [PMText ''A'']] \<and>
   copy_markdown
     (\<lambda>n. case n of
        PMNode type attrs children \<Rightarrow>
          DElem ''pre'' []
            [DElem ''code'' [(''class'', ''language-'' @ node_attr ''language'' attrs)]
               (map render_content children)]
      | PMText s \<Rightarrow> DText s)
     [PMNode ''codeBlock'' [(''language'', ''mermaid'')] [PMText ''B\<newline>''],
      PMNode ''mermaidBlock''
        [(''diagramType'', ''flowchart''), (''viewMode'', ''preview''), (''theme'', ''default'')]
        [PMText ''A'']]
     = ''```mermaid\<newline>B\<newline>\<newline>```\<newline>\<newline>```mermaid\<newline>A\<newline>```'' \<and>
   extractMermaidBlocks ''```mermaid\<newline>B\<newline>\<newline>```\<newline>\<newline>```mermaid\<newline>A\<newline>```''
     = Some [\<lparr>content = ''B'', startIndex = Some 0, endIndex = 17, diagramType = ''flowchart''\<rparr>,
             \<lparr>content = ''A'', startIndex = Some 19, endIndex = 35, diagramType = ''flowchart''\<rparr>] \<and>
   \<not> others_quiet
     (\<lambda>n. case n of
        PMNode type attrs children \<Rightarrow>
          DElem ''pre'' []
            [DElem ''code'' [(''class'', ''language-'' @ node_attr ''language'' attrs)]
               (map render_content children)]
      | PMText s \<Rightarrow> DText s)
     True []
     [PMNode ''codeBlock'' [(''language'', ''mermaid'')] [PMText ''B\<newline>''],
      PMNode ''mermaidBlock''
        [(''diagramType'', ''flowchart''), (''viewMode'', ''preview''), (''theme'', ''default'')]
        [PMText ''A'']] \<and>
   extractMermaidBlocks ''<div data-type=mermaid-block>B</div>\<newline>\<newline>```mermaid\<newline>A\<newline>```''
     = Some [\<lparr>content = ''A'', startIndex = Some 38, endIndex = 54, diagramType = ''flowchart''\<rparr>] \<and>
   convertMarkdownToTipTapNodes
     (\<lambda>s. if s = ''<div data-type=mermaid-block>B</div>\<newline>\<newline>''
          then Some ''<div data-type=mermaid-block>B</div>\<newline>\<newline>'' else None)
     (\<lambda>html. if html = ''<div data-type=mermaid-block>B</div>\<newline>\<newline>''
          then Some [PMNode ''mermaidBlock''
                       [(''diagramType'', ''flowchart''), (''viewMode'', ''source''), (''theme'', ''default'')]
                       [PMText ''B'']]
          else None)
     ''<div data-type=mermaid-block>B</div>\<newline>\<newline>```mermaid\<newline>A\<newline>```''
     = Some [PMNode ''mermaidBlock''
               [(''diagramType'', ''flowchart''), (''viewMode'', ''source''), (''theme'', ''default'')]
               [PMText ''B''],
             PMNode ''mermaidBlock''
               [(''diagramType'', ''flowchart''), (''viewMode'', ''preview''), (''theme'', ''default'')]
               [PMText ''A'']] \<and>
   length (filter is_mermaid_node
     [PMNode ''mermaidBlock''
        [(''diagramType'', ''flowchart''), (''viewMode'', ''source''), (''theme'', ''default'')]
        [PMText ''B''],
      PMNode ''mermaidBlock''
        [(''diagramType'', ''flowchart''), (''viewMode'', ''preview''), (''theme'', ''default'')]
        [PMText ''A'']]) = 2 \<and>
   copy_markdown (\<lambda>n. DOther)
     [PMNode ''mermaidBlock''
        [(''diagramType'', ''flowchart''), (''viewMode'', ''source''), (''theme'', ''default'')]
        [PMText ''B''],
      PMNode ''mermaidBlock''
        [(''diagramType'', ''flowchart''), (''viewMode'', ''preview''), (''theme'', ''default'')]
        [PMText ''A'']]
     = ''```mermaid\<newline>B\<newline>```\<newline>\<newline>```mermaid\<newline>A\<newline>```'' \<and>
   extractMermaidBlocks ''```mermaid\<newline>B\<newline>```\<newline>\<newline>```mermaid\<newline>A\<newline>```''
     = Some [\<lparr>content = ''B'', startIndex = Some 0, endIndex = 16, diagramType = ''flowchart''\<rparr>,
             \<lparr>content = ''A'', startIndex = Some 18, endIndex = 34, diagramType = ''flowchart''\<rparr>]"
  by code_simp

end
